theory Spec2Isabelle
  imports Complex_Main "HOL-Library.Sublist"
begin

section \<open>Registry (services/testDB)\<close>

text \<open>
  \<^verbatim>\<open>STUDENTS\<close> is an object literal keyed by identifier strings; its own properties are
  a finite map here. \<^verbatim>\<open>getAllValidStudentIDs\<close> returns \<^verbatim>\<open>Object.keys(STUDENTS)\<close>, the
  array of the own keys; it is passed to the reconciliation function as a list, in its
  iteration order.
\<close>

record student =
  student_id :: string
  student_name :: string
  department :: string
  year :: string
  faceImage :: string
  email :: string

type_synonym registry = "string \<rightharpoonup> student"

text \<open>
  \<^verbatim>\<open>getStudentByID\<close> reads \<^verbatim>\<open>STUDENTS[studentId]\<close> and returns the value it finds unless
  it is falsy, and \<^verbatim>\<open>null\<close> then. The read finds an own property, and for a key that is
  no own key a property that the object inherits from \<^verbatim>\<open>Object.prototype\<close>: the
  functions \<^verbatim>\<open>constructor\<close>, \<^verbatim>\<open>toString\<close> and so on, and the prototype itself under
  \<^verbatim>\<open>__proto__\<close>. A student record is an object and an inherited property is a function
  or an object, so both are truthy; only a key that names neither gives \<^verbatim>\<open>undefined\<close>.
  The identifier is a string, as the function's annotation declares it
  (\<^verbatim>\<open>@param {string} studentId\<close>) and as the scanner passes it.
\<close>

datatype property_value = Student student | Inherited string

definition Object_prototype_keys :: "string list" where
  "Object_prototype_keys =
     [''constructor'', ''__defineGetter__'', ''__defineSetter__'', ''hasOwnProperty'',
      ''__lookupGetter__'', ''__lookupSetter__'', ''isPrototypeOf'',
      ''propertyIsEnumerable'', ''toString'', ''valueOf'', ''__proto__'',
      ''toLocaleString'']"

definition getStudentByID :: "registry \<Rightarrow> string \<Rightarrow> property_value option" where
  "getStudentByID db studentId =
     (case db studentId of
        Some st \<Rightarrow> Some (Student st)
      | None \<Rightarrow>
          if studentId \<in> set Object_prototype_keys then Some (Inherited studentId)
          else None)"

definition jane :: student where
  "jane = \<lparr>student_id = ''2201547'', student_name = ''Jane Smith'',
           department = ''Engineering'', year = ''Senior'',
           faceImage = ''/uploads/jungkok.jpg'', email = ''jane.smith@university.edu''\<rparr>"

definition john :: student where
  "john = \<lparr>student_id = ''20002547'', student_name = ''John Paul'',
           department = ''CCICT'', year = ''4th year'',
           faceImage = ''/uploads/mememe.jpg'', email = ''john.doe@university.edu''\<rparr>"

text \<open>
  The entries of the object literal, in the order in which \<^verbatim>\<open>Object.keys\<close> lists them:
  both keys are canonical array indices, and such keys come in ascending numeric order.
\<close>

definition STUDENTS_entries :: "(string \<times> student) list" where
  "STUDENTS_entries = [(''2201547'', jane), (''20002547'', john)]"

definition STUDENTS :: registry where
  "STUDENTS = map_of STUDENTS_entries"

definition getAllValidStudentIDs :: "string list" where
  "getAllValidStudentIDs = map fst STUDENTS_entries"

section \<open>JavaScript numbers\<close>

text \<open>
  The code computes on Numbers, in double precision. The comparators and the quality gate
  are written once, over a record of the arithmetic operations they use, and read in two
  arithmetics: \<open>binary64\<close>, the double-precision arithmetic JavaScript computes in, where
  every operation rounds; and \<open>exact\<close>, the real numbers, where every operation is exact,
  which is what a statement about the ideal values refers to. The verification loop and
  the controller hold Numbers. \<open>lit k\<close> is the integer literal \<open>k\<close> and \<open>dec m k\<close> the decimal
  literal \<open>m / 10\<^sup>k\<close> (\<open>dec 35 2\<close> is \<^verbatim>\<open>0.35\<close>); \<open>eq\<close>, \<open>lt\<close> and \<open>le\<close> are \<^verbatim>\<open>===\<close>,
  \<^verbatim>\<open><\<close> and \<^verbatim>\<open><=\<close> on numbers (\<^verbatim>\<open>a > b\<close> is \<open>lt b a\<close>), \<open>absn\<close> is \<^verbatim>\<open>Math.abs\<close>, \<open>root\<close>
  is \<^verbatim>\<open>Math.sqrt\<close> and \<open>maxn\<close> is \<^verbatim>\<open>Math.max\<close>.
\<close>

record 'n arith =
  lit :: "int \<Rightarrow> 'n"
  dec :: "int \<Rightarrow> nat \<Rightarrow> 'n"
  add :: "'n \<Rightarrow> 'n \<Rightarrow> 'n"
  sub :: "'n \<Rightarrow> 'n \<Rightarrow> 'n"
  mul :: "'n \<Rightarrow> 'n \<Rightarrow> 'n"
  quo :: "'n \<Rightarrow> 'n \<Rightarrow> 'n"
  root :: "'n \<Rightarrow> 'n"
  absn :: "'n \<Rightarrow> 'n"
  maxn :: "'n \<Rightarrow> 'n \<Rightarrow> 'n"
  eq :: "'n \<Rightarrow> 'n \<Rightarrow> bool"
  lt :: "'n \<Rightarrow> 'n \<Rightarrow> bool"
  le :: "'n \<Rightarrow> 'n \<Rightarrow> bool"

definition exact :: "real arith" where
  "exact = \<lparr>lit = of_int, dec = (\<lambda>m k. of_int m / 10 ^ k), add = (+), sub = (-),
            mul = (*), quo = (/), root = sqrt, absn = abs, maxn = max, eq = (=),
            lt = (<), le = (\<le>)\<rparr>"

subsection \<open>Double precision\<close>

text \<open>
  A Number is a finite value, an infinity or NaN. The two zeros are one value here: they
  are \<^verbatim>\<open>===\<close> to each other, and the comparators divide only by a denominator that is not
  \<^verbatim>\<open>=== 0\<close> or by the literal 2. Every operation on finite values returns the exact
  result rounded by \<open>fl\<close>: to the nearest multiple of the quantum of its binade
  (53 significant bits, exponents from \<open>-1022\<close>, below that the fixed quantum \<open>2\<^sup>-\<^sup>1\<^sup>0\<^sup>7\<^sup>4\<close>),
  ties to the even multiple, and to an infinity from \<open>2\<^sup>1\<^sup>0\<^sup>2\<^sup>4\<close> on.
\<close>

datatype f64 = Finite real | PInf | NInf | NaN

definition pow2 :: "int \<Rightarrow> real" where
  "pow2 e = (if 0 \<le> e then 2 ^ nat e else 1 / 2 ^ nat (- e))"

definition binade :: "real \<Rightarrow> int" where
  "binade x = \<lfloor>log 2 \<bar>x\<bar>\<rfloor>"

definition round_half_even :: "real \<Rightarrow> int" where
  "round_half_even x =
     (let f = \<lfloor>x\<rfloor>; r = x - of_int f
      in if r < 1 / 2 then f else if 1 / 2 < r then f + 1
         else if even f then f else f + 1)"

definition fl :: "real \<Rightarrow> f64" where
  "fl x =
     (if x = 0 then Finite 0
      else
        let e = max (binade x) (- 1022);
            q = pow2 (e - 52);
            y = of_int (round_half_even (\<bar>x\<bar> / q)) * q
        in if pow2 1024 \<le> y then (if 0 < x then PInf else NInf)
           else Finite (sgn x * y))"

fun f64_add :: "f64 \<Rightarrow> f64 \<Rightarrow> f64" where
  "f64_add (Finite x) (Finite y) = fl (x + y)"
| "f64_add NaN v = NaN"
| "f64_add u NaN = NaN"
| "f64_add PInf NInf = NaN"
| "f64_add NInf PInf = NaN"
| "f64_add PInf v = PInf"
| "f64_add NInf v = NInf"
| "f64_add u PInf = PInf"
| "f64_add u NInf = NInf"

fun f64_neg :: "f64 \<Rightarrow> f64" where
  "f64_neg (Finite x) = Finite (- x)"
| "f64_neg PInf = NInf"
| "f64_neg NInf = PInf"
| "f64_neg NaN = NaN"

definition f64_sub :: "f64 \<Rightarrow> f64 \<Rightarrow> f64" where
  "f64_sub u v = f64_add u (f64_neg v)"

fun f64_sign :: "f64 \<Rightarrow> int" where
  "f64_sign (Finite x) = (if x < 0 then - 1 else if x = 0 then 0 else 1)"
| "f64_sign PInf = 1"
| "f64_sign NInf = - 1"
| "f64_sign NaN = 0"

definition signed_inf :: "int \<Rightarrow> f64" where
  "signed_inf s = (if s = 0 then NaN else if 0 < s then PInf else NInf)"

fun f64_mul :: "f64 \<Rightarrow> f64 \<Rightarrow> f64" where
  "f64_mul (Finite x) (Finite y) = fl (x * y)"
| "f64_mul NaN v = NaN"
| "f64_mul u NaN = NaN"
| "f64_mul u v = signed_inf (f64_sign u * f64_sign v)"

fun f64_div :: "f64 \<Rightarrow> f64 \<Rightarrow> f64" where
  "f64_div (Finite x) (Finite y) = (if y = 0 then signed_inf (f64_sign (Finite x)) else fl (x / y))"
| "f64_div NaN v = NaN"
| "f64_div u NaN = NaN"
| "f64_div (Finite x) v = Finite 0"
| "f64_div u (Finite y) = signed_inf (f64_sign u * (if y < 0 then - 1 else 1))"
| "f64_div u v = NaN"

fun f64_sqrt :: "f64 \<Rightarrow> f64" where
  "f64_sqrt (Finite x) = (if x < 0 then NaN else fl (sqrt x))"
| "f64_sqrt PInf = PInf"
| "f64_sqrt NInf = NaN"
| "f64_sqrt NaN = NaN"

fun f64_le :: "f64 \<Rightarrow> f64 \<Rightarrow> bool" where
  "f64_le NaN v = False"
| "f64_le u NaN = False"
| "f64_le (Finite x) (Finite y) = (x \<le> y)"
| "f64_le NInf v = True"
| "f64_le u PInf = True"
| "f64_le u v = False"

definition f64_max :: "f64 \<Rightarrow> f64 \<Rightarrow> f64" where
  "f64_max u v = (if u = NaN \<or> v = NaN then NaN else if f64_le u v then v else u)"

definition f64_eq :: "f64 \<Rightarrow> f64 \<Rightarrow> bool" where
  "f64_eq u v = (u \<noteq> NaN \<and> v \<noteq> NaN \<and> u = v)"

fun f64_lt :: "f64 \<Rightarrow> f64 \<Rightarrow> bool" where
  "f64_lt NaN v = False"
| "f64_lt u NaN = False"
| "f64_lt (Finite x) (Finite y) = (x < y)"
| "f64_lt PInf v = False"
| "f64_lt u NInf = False"
| "f64_lt u v = True"

fun f64_abs :: "f64 \<Rightarrow> f64" where
  "f64_abs (Finite x) = Finite \<bar>x\<bar>"
| "f64_abs PInf = PInf"
| "f64_abs NInf = PInf"
| "f64_abs NaN = NaN"

text \<open>A non-negative finite value or the positive infinity.\<close>

definition nonneg_or_inf :: "f64 \<Rightarrow> bool" where
  "nonneg_or_inf u = (u = PInf \<or> (\<exists>r\<ge>0. u = Finite r))"

text \<open>A literal denotes the double nearest to its decimal value.\<close>

definition binary64 :: "f64 arith" where
  "binary64 = \<lparr>lit = (\<lambda>k. fl (of_int k)), dec = (\<lambda>m k. fl (of_int m / 10 ^ k)),
               add = f64_add, sub = f64_sub, mul = f64_mul, quo = f64_div, root = f64_sqrt,
               absn = f64_abs, maxn = f64_max, eq = f64_eq, lt = f64_lt, le = f64_le\<rparr>"

section \<open>Verification flow controller (hooks/useVerificationFlow)\<close>

datatype verification_state =
  SCANNING_ID | VERIFYING_FACE | SUCCESS | FAILED_ID | FAILED_FACE | FAILED_MISMATCH

text \<open>
  The object stored by \<^verbatim>\<open>handleFaceVerified\<close>: the payload of the face loop
  (\<^verbatim>\<open>similarity\<close>, \<^verbatim>\<open>confidence\<close>) spread into a new object together with a timestamp
  and the identifier captured by the callback.
\<close>

record verification_result =
  similarity :: f64
  confidence :: f64
  timestamp :: string
  result_studentId :: "string option"

text \<open>The four \<^verbatim>\<open>useState\<close> cells of the hook.\<close>

record flow =
  currentStep :: verification_state
  studentId :: "string option"
  studentData :: "property_value option"
  verificationResult :: "verification_result option"

definition initial_flow :: flow where
  "initial_flow = \<lparr>currentStep = SCANNING_ID, studentId = None, studentData = None,
                    verificationResult = None\<rparr>"

definition handleIDDetected :: "registry \<Rightarrow> string \<Rightarrow> flow \<Rightarrow> flow" where
  "handleIDDetected db detectedId f =
     (case getStudentByID db detectedId of
        None \<Rightarrow> f\<lparr>currentStep := FAILED_ID, studentId := Some detectedId\<rparr>
      | Some st \<Rightarrow> f\<lparr>studentId := Some detectedId, studentData := Some st,
                      currentStep := VERIFYING_FACE\<rparr>)"

text \<open>
  \<^verbatim>\<open>result\<close> is the pair \<^verbatim>\<open>{similarity, confidence}\<close> of two Numbers; \<^verbatim>\<open>ts\<close> stands
  for \<^verbatim>\<open>new Date().toISOString()\<close> at the time of the call.
\<close>

definition handleFaceVerified :: "f64 \<times> f64 \<Rightarrow> string \<Rightarrow> flow \<Rightarrow> flow" where
  "handleFaceVerified result ts f =
     f\<lparr>verificationResult :=
          Some \<lparr>similarity = fst result, confidence = snd result, timestamp = ts,
                result_studentId = studentId f\<rparr>,
       currentStep := SUCCESS\<rparr>"

definition handleFaceFailed :: "string \<Rightarrow> flow \<Rightarrow> flow" where
  "handleFaceFailed reason f = f\<lparr>currentStep := FAILED_FACE\<rparr>"

definition reset :: "flow \<Rightarrow> flow" where
  "reset f = f\<lparr>currentStep := SCANNING_ID, studentId := None, studentData := None,
               verificationResult := None\<rparr>"

text \<open>The operations the hook returns to its caller, as a datatype of calls.\<close>

datatype flow_op =
  IDDetected string
| FaceVerified "f64 \<times> f64" string
| FaceFailed string
| Reset

fun apply_flow_op :: "registry \<Rightarrow> flow_op \<Rightarrow> flow \<Rightarrow> flow" where
  "apply_flow_op db (IDDetected i) f = handleIDDetected db i f"
| "apply_flow_op db (FaceVerified r ts) f = handleFaceVerified r ts f"
| "apply_flow_op db (FaceFailed reason) f = handleFaceFailed reason f"
| "apply_flow_op db Reset f = reset f"

text \<open>Any sequence of calls, applied to the initial state from left to right.\<close>

definition run_flow :: "registry \<Rightarrow> flow_op list \<Rightarrow> flow" where
  "run_flow db ops = foldl (\<lambda>f c. apply_flow_op db c f) initial_flow ops"




section \<open>Text reconciliation (hooks/useIDScannerLogic, \<^verbatim>\<open>findValidStudentId\<close>)\<close>

text \<open>
  \<^verbatim>\<open>text.replace(/\D/g, '')\<close> keeps exactly the characters \<^verbatim>\<open>0\<close> to \<^verbatim>\<open>9\<close>.
\<close>

definition isDigit :: "char \<Rightarrow> bool" where
  "isDigit c = (c \<in> set ''0123456789'')"

definition digitsOnly :: "string \<Rightarrow> string" where
  "digitsOnly text = filter isDigit text"

text \<open>
  \<^verbatim>\<open>String.prototype.includes\<close>: the search string occurs at some position of the
  receiver. \<^verbatim>\<open>Array.prototype.includes\<close>: the value is an element of the array.
  \<^verbatim>\<open>s.substring(a, b)\<close> for \<open>a \<le> b\<close>: the characters from index \<open>a\<close> up to, not
  including, index \<open>b\<close>, cut at the end of the string.
\<close>

fun str_includes :: "string \<Rightarrow> string \<Rightarrow> bool" where
  "str_includes [] t = (t = [])"
| "str_includes (c # s) t = (take (length t) (c # s) = t \<or> str_includes s t)"

definition arr_includes :: "string list \<Rightarrow> string \<Rightarrow> bool" where
  "arr_includes validIds candidate = (candidate \<in> set validIds)"

definition substring :: "string \<Rightarrow> nat \<Rightarrow> nat \<Rightarrow> string" where
  "substring s a b = take (b - a) (drop a s)"

text \<open>First loop: \<^verbatim>\<open>for (const validId of validIds) if (digitsOnly.includes(validId)) return validId\<close>.\<close>

fun exact_match_loop :: "string \<Rightarrow> string list \<Rightarrow> string option" where
  "exact_match_loop digits [] = None"
| "exact_match_loop digits (validId # rest) =
     (if str_includes digits validId then Some validId else exact_match_loop digits rest)"

text \<open>
  Second loop: \<^verbatim>\<open>for (let i = 0; i <= digitsOnly.length - 7; i++)\<close>, from the current
  index \<open>i\<close>. The bound is an integer subtraction in the source, so it is one here.
\<close>

function window_loop :: "string list \<Rightarrow> string \<Rightarrow> nat \<Rightarrow> string option" where
  "window_loop validIds digits i =
     (if int i \<le> int (length digits) - 7
      then (let candidate = substring digits i (i + 7)
            in if arr_includes validIds candidate then Some candidate
               else window_loop validIds digits (i + 1))
      else None)"
  by pat_completeness auto
termination
  by (relation "measure (\<lambda>(validIds, digits, i). length digits - i)") auto

declare window_loop.simps [simp del]

definition findValidStudentId :: "string list \<Rightarrow> string \<Rightarrow> string option" where
  "findValidStudentId validIds text =
     (let digits = digitsOnly text
      in case exact_match_loop digits validIds of
           Some validId \<Rightarrow> Some validId
         | None \<Rightarrow>
             if length digits \<ge> 7
             then (case window_loop validIds digits 0 of
                     Some candidate \<Rightarrow> Some candidate
                   | None \<Rightarrow>
                       (let firstSeven = substring digits 0 7
                        in if arr_includes validIds firstSeven then Some firstSeven
                           else None))
             else None)"

subsection \<open>The procedure in the words of the specification\<close>

text \<open>
  The three stages as the specification words them, over the digit string \<open>D\<close>:
  the first identifier of \<open>V\<close> that is a contiguous substring of \<open>D\<close>; else, when \<open>D\<close>
  has at least seven characters, the leftmost seven-character window of \<open>D\<close> that is a
  member of \<open>V\<close>; else the first seven characters of \<open>D\<close> when they are a member of
  \<open>V\<close>; else nothing.
\<close>

definition windows7 :: "string \<Rightarrow> string list" where
  "windows7 D = map (\<lambda>i. take 7 (drop i D)) [0 ..< length D - 6]"

definition reconcile_spec :: "string list \<Rightarrow> string \<Rightarrow> string option" where
  "reconcile_spec V text =
     (let D = filter (\<lambda>c. c \<in> set ''0123456789'') text
      in case find (\<lambda>v. sublist v D) V of
           Some v \<Rightarrow> Some v
         | None \<Rightarrow>
             if 7 \<le> length D
             then (case find (\<lambda>w. w \<in> set V) (windows7 D) of
                     Some w \<Rightarrow> Some w
                   | None \<Rightarrow> if take 7 D \<in> set V then Some (take 7 D) else None)
             else None)"

text \<open>Plain substring search: the first member of \<open>V\<close> that occurs in the digit string.\<close>

definition substring_search :: "string list \<Rightarrow> string \<Rightarrow> string option" where
  "substring_search V text = find (\<lambda>v. sublist v (digitsOnly text)) V"

section \<open>ID acquisition loop (hooks/useIDScannerLogic, \<^verbatim>\<open>scanFrame\<close>)\<close>

text \<open>
  The refs and state cells of the hook that \<^verbatim>\<open>scanFrame\<close>, \<^verbatim>\<open>startScanning\<close> and
  \<^verbatim>\<open>stopScanning\<close> touch. \<open>scanInterval\<close> says whether \<^verbatim>\<open>scanIntervalRef.current\<close>
  holds a timer. The status texts are a datatype: \<open>ScanningCount n\<close> stands for
  \<^verbatim>\<open>`Scanning... (${n}/${MAX_ATTEMPTS})`\<close>.
\<close>

datatype scan_status =
  ScanInitializing        \<comment> \<open>\<^verbatim>\<open>'Initializing...'\<close>\<close>
| ScanningForStudentId    \<comment> \<open>\<^verbatim>\<open>'Scanning for student ID...'\<close>\<close>
| ScanningForCard         \<comment> \<open>\<^verbatim>\<open>'Scanning for ID card...'\<close>\<close>
| IdDetectedStatus        \<comment> \<open>\<^verbatim>\<open>'ID detected!'\<close>\<close>
| ScanningCount nat
| ScanTimeout             \<comment> \<open>\<^verbatim>\<open>'Scan timeout'\<close>\<close>

record scanner =
  scanCount :: nat
  scanInterval :: bool
  isProcessing :: bool
  scan_error :: "string option"
  scan_status :: scan_status

definition MAX_ATTEMPTS :: nat where
  "MAX_ATTEMPTS = 60"

definition timeout_message :: string where
  "timeout_message = ''Could not detect student ID. Please try again.''"

text \<open>
  What one call of \<^verbatim>\<open>scanFrame\<close> meets: whether the video, model and OCR worker refs
  are set, the video's \<^verbatim>\<open>readyState\<close>, and the text the OCR worker recognises
  (\<open>None\<close> when \<^verbatim>\<open>detect\<close> or \<^verbatim>\<open>recognize\<close> throws).
\<close>

record scan_input =
  refs_set :: bool
  readyState :: nat
  ocr_text :: "string option"

definition stopScanning :: "scanner \<Rightarrow> scanner" where
  "stopScanning s = s\<lparr>scanInterval := False, isProcessing := False\<rparr>"

definition startScanning :: "scanner \<Rightarrow> scanner" where
  "startScanning s =
     s\<lparr>scan_status := ScanningForStudentId, scanCount := 0, isProcessing := False,
       scanInterval := True\<rparr>"

text \<open>
  \<^verbatim>\<open>scanFrame\<close> returns the new hook state and the argument of \<^verbatim>\<open>onIDDetected\<close> when
  it calls it. A string is truthy when it is not empty. The \<^verbatim>\<open>finally\<close> block clears
  \<^verbatim>\<open>isProcessingRef\<close> on every path that entered the \<^verbatim>\<open>try\<close>.
\<close>

definition scanFrame :: "string list \<Rightarrow> scan_input \<Rightarrow> scanner \<Rightarrow> scanner \<times> string option" where
  "scanFrame validIds inp s =
     (if isProcessing s \<or> \<not> refs_set inp then (s, None)
      else if readyState inp < 2 then (s, None)
      else
        let s1 = s\<lparr>isProcessing := True, scan_status := ScanningForCard\<rparr>
        in case ocr_text inp of
             None \<Rightarrow> (s1\<lparr>isProcessing := False\<rparr>, None)
           | Some rawText \<Rightarrow>
               (case findValidStudentId validIds rawText of
                  Some (c # cs) \<Rightarrow>
                    ((stopScanning s1)\<lparr>scan_status := IdDetectedStatus, isProcessing := False\<rparr>,
                     Some (c # cs))
                | _ \<Rightarrow>
                    let s2 = s1\<lparr>scanCount := scanCount s1 + 1\<rparr>;
                        s3 = s2\<lparr>scan_status := ScanningCount (scanCount s2)\<rparr>;
                        s4 = (if scanCount s3 \<ge> MAX_ATTEMPTS
                              then (stopScanning s3)\<lparr>scan_error := Some timeout_message,
                                                        scan_status := ScanTimeout\<rparr>
                              else s3)
                    in (s4\<lparr>isProcessing := False\<rparr>, None)))"

text \<open>
  The scanner wired to the controller as the application does
  (\<^verbatim>\<open><IDScanner onIDDetected={handleIDDetected} />\<close>): one firing of the interval timer.
  A cleared timer does not fire.
\<close>

definition scan_tick ::
  "registry \<Rightarrow> string list \<Rightarrow> scanner \<times> flow \<Rightarrow> scan_input \<Rightarrow> scanner \<times> flow" where
  "scan_tick db validIds sf inp =
     (if \<not> scanInterval (fst sf) then sf
      else case scanFrame validIds inp (fst sf) of
             (s', None) \<Rightarrow> (s', snd sf)
           | (s', Some detectedId) \<Rightarrow> (s', handleIDDetected db detectedId (snd sf)))"

definition run_scan ::
  "registry \<Rightarrow> string list \<Rightarrow> scanner \<times> flow \<Rightarrow> scan_input list \<Rightarrow> scanner \<times> flow" where
  "run_scan db validIds sf inps = foldl (scan_tick db validIds) sf inps"

definition initial_scanner :: scanner where
  "initial_scanner = \<lparr>scanCount = 0, scanInterval = False, isProcessing = False,
                        scan_error = None, scan_status = ScanInitializing\<rparr>"

text \<open>A tick on which the frame is read and the recognised text holds no valid identifier.\<close>

definition miss :: "string list \<Rightarrow> scan_input \<Rightarrow> bool" where
  "miss validIds inp =
     (refs_set inp \<and> 2 \<le> readyState inp \<and>
      (case ocr_text inp of
         None \<Rightarrow> False
       | Some rawText \<Rightarrow> findValidStudentId validIds rawText \<in> {None, Some []}))"

definition blank_frame :: scan_input where
  "blank_frame = \<lparr>refs_set = True, readyState = 4, ocr_text = Some ''12345''\<rparr>"

section \<open>Descriptor comparators (hooks/useFaceVerification, Fsite)\<close>

text \<open>
  \<^verbatim>\<open>cosineSimilarity\<close>. An argument is \<open>None\<close> when it is \<^verbatim>\<open>null\<close> or \<^verbatim>\<open>undefined\<close>
  (an array, also the empty one, is truthy). The loop runs over the indices of \<open>a\<close>
  from left to right and adds into the three sums in that order.
\<close>

fun cosine_loop ::
  "'n arith \<Rightarrow> 'n \<times> 'n \<times> 'n \<Rightarrow> 'n list \<Rightarrow> 'n list \<Rightarrow> 'n \<times> 'n \<times> 'n" where
  "cosine_loop A (dot, normA, normB) (x # xs) (y # ys) =
     cosine_loop A (add A dot (mul A x y), add A normA (mul A x x), add A normB (mul A y y))
       xs ys"
| "cosine_loop A acc xs ys = acc"

text \<open>
  The return statement the call leaves through: the first guard (an argument missing or
  the lengths different), the second guard (\<^verbatim>\<open>denom === 0\<close>), or the division, with the
  numerator and the denominator it divides.
\<close>

datatype 'n cosine_exit = MissingOrMismatch | ZeroDenominator | Quotient 'n 'n

definition cosine_exit :: "'n arith \<Rightarrow> 'n list option \<Rightarrow> 'n list option \<Rightarrow> 'n cosine_exit" where
  "cosine_exit A a b =
     (case (a, b) of
        (Some xs, Some ys) \<Rightarrow>
          if length xs \<noteq> length ys then MissingOrMismatch
          else
            (case cosine_loop A (lit A 0, lit A 0, lit A 0) xs ys of
               (dot, normA, normB) \<Rightarrow>
                 let denom = mul A (root A normA) (root A normB)
                 in if eq A denom (lit A 0) then ZeroDenominator else Quotient dot denom)
      | _ \<Rightarrow> MissingOrMismatch)"

definition cosineSimilarity_in :: "'n arith \<Rightarrow> 'n list option \<Rightarrow> 'n list option \<Rightarrow> 'n" where
  "cosineSimilarity_in A a b =
     (case cosine_exit A a b of
        MissingOrMismatch \<Rightarrow> lit A 0
      | ZeroDenominator \<Rightarrow> lit A 0
      | Quotient dot denom \<Rightarrow> quo A (add A (quo A dot denom) (lit A 1)) (lit A 2))"

text \<open>\<^verbatim>\<open>faceSimilarity\<close>: \<^verbatim>\<open>Math.max(0, 1 - Math.sqrt(sum))\<close> of the squared differences.\<close>

fun distance_loop :: "'n arith \<Rightarrow> 'n \<Rightarrow> 'n list \<Rightarrow> 'n list \<Rightarrow> 'n" where
  "distance_loop A acc (x # xs) (y # ys) =
     (let diff = sub A x y in distance_loop A (add A acc (mul A diff diff)) xs ys)"
| "distance_loop A acc xs ys = acc"

definition faceSimilarity_in :: "'n arith \<Rightarrow> 'n list option \<Rightarrow> 'n list option \<Rightarrow> 'n" where
  "faceSimilarity_in A a b =
     (case (a, b) of
        (Some xs, Some ys) \<Rightarrow>
          if length xs \<noteq> length ys then lit A 0
          else
            let distance = root A (distance_loop A (lit A 0) xs ys)
            in maxn A (lit A 0) (sub A (lit A 1) distance)
      | _ \<Rightarrow> lit A 0)"

abbreviation cosineSimilarity :: "real list option \<Rightarrow> real list option \<Rightarrow> real" where
  "cosineSimilarity \<equiv> cosineSimilarity_in exact"

abbreviation faceSimilarity :: "real list option \<Rightarrow> real list option \<Rightarrow> real" where
  "faceSimilarity \<equiv> faceSimilarity_in exact"

text \<open>The sum of squares \<^verbatim>\<open>normB\<close> that the loop of \<^verbatim>\<open>cosineSimilarity\<close> forms for one vector.\<close>

fun sum_squares :: "'n arith \<Rightarrow> 'n \<Rightarrow> 'n list \<Rightarrow> 'n" where
  "sum_squares A acc [] = acc"
| "sum_squares A acc (y # ys) = sum_squares A (add A acc (mul A y y)) ys"

section \<open>Quality gate (hooks/useFaceVerification, \<^verbatim>\<open>checkFaceQuality\<close>)\<close>

text \<open>
  A detection of face-api: the detector's score, the bounding box and the descriptor,
  over the numbers of an arithmetic. \<open>videoRef\<close> is \<^verbatim>\<open>videoRef.current\<close>, given by the
  \<^verbatim>\<open>videoWidth\<close> of the element when there is one.
\<close>

record 'n face_box =
  box_x :: 'n
  box_y :: 'n
  box_width :: 'n
  box_height :: 'n

record 'n detection =
  det_score :: 'n
  det_box :: "'n face_box"
  descriptor :: "'n list"

definition checkFaceQuality_in :: "'n arith \<Rightarrow> 'n option \<Rightarrow> 'n detection \<Rightarrow> bool" where
  "checkFaceQuality_in A videoRef det =
     (case videoRef of
        None \<Rightarrow> False
      | Some videoWidth \<Rightarrow>
          if lt A (det_score det) (dec A 5 1) then False
          else
            let faceBox = det_box det;
                videoCenter = quo A videoWidth (lit A 2);
                faceCenter = add A (box_x faceBox) (quo A (box_width faceBox) (lit A 2));
                maxOffset = mul A videoWidth (dec A 35 2)
            in if lt A maxOffset (absn A (sub A faceCenter videoCenter)) then False
               else
                 let minSize = mul A videoWidth (dec A 15 2);
                     maxSize = mul A videoWidth (dec A 85 2)
                 in if lt A (box_width faceBox) minSize \<or> lt A maxSize (box_width faceBox)
                    then False
                    else True)"

text \<open>The function as it runs, on Numbers.\<close>

abbreviation checkFaceQuality :: "f64 option \<Rightarrow> f64 detection \<Rightarrow> bool" where
  "checkFaceQuality \<equiv> checkFaceQuality_in binary64"

text \<open>
  The three checks in the words of the specification, over an arithmetic: the confidence
  is at least 0.5; the distance between the centre of the box and the centre of the frame
  is at most 0.35 of the frame width; the width of the box lies between 0.15 and 0.85 of
  the frame width. In \<open>exact\<close> the fractions of the width are the exact ones; in
  \<open>binary64\<close> they are the rounded products \<^verbatim>\<open>videoWidth * 0.35\<close> and so on.
\<close>

definition confidence_ok :: "'n arith \<Rightarrow> 'n detection \<Rightarrow> bool" where
  "confidence_ok A det = le A (dec A 5 1) (det_score det)"

definition center_offset :: "'n arith \<Rightarrow> 'n \<Rightarrow> 'n detection \<Rightarrow> 'n" where
  "center_offset A videoWidth det =
     absn A (sub A (add A (box_x (det_box det)) (quo A (box_width (det_box det)) (lit A 2)))
                   (quo A videoWidth (lit A 2)))"

definition centered_ok :: "'n arith \<Rightarrow> 'n \<Rightarrow> 'n detection \<Rightarrow> bool" where
  "centered_ok A videoWidth det =
     le A (center_offset A videoWidth det) (mul A videoWidth (dec A 35 2))"

definition size_ok :: "'n arith \<Rightarrow> 'n \<Rightarrow> 'n detection \<Rightarrow> bool" where
  "size_ok A videoWidth det =
     (le A (mul A videoWidth (dec A 15 2)) (box_width (det_box det)) \<and>
      le A (box_width (det_box det)) (mul A videoWidth (dec A 85 2)))"

section \<open>Face verification loop (hooks/useFaceVerification, \<^verbatim>\<open>startFaceDetection\<close>)\<close>

text \<open>
  The two copies of the hook differ in their constants and in the comparator they call;
  the loop takes them as a configuration. The threshold is the Number its literal
  denotes, the comparator and the quality gate compute on Numbers, and the times are the
  integers of \<^verbatim>\<open>Date.now()\<close>.
\<close>

record face_config =
  MATCH_THRESHOLD :: f64
  MATCHING_THROTTLE :: int
  comparator :: "f64 list option \<Rightarrow> f64 list option \<Rightarrow> f64"

definition cosine_config :: face_config where
  "cosine_config = \<lparr>MATCH_THRESHOLD = dec binary64 5 1, MATCHING_THROTTLE = 4000,
                      comparator = cosineSimilarity_in binary64\<rparr>"

definition distance_config :: face_config where
  "distance_config = \<lparr>MATCH_THRESHOLD = dec binary64 58 2, MATCHING_THROTTLE = 6000,
                        comparator = faceSimilarity_in binary64\<rparr>"

datatype face_status =
  FaceInitializing      \<comment> \<open>\<^verbatim>\<open>'Initializing...'\<close>\<close>
| LookingForFace        \<comment> \<open>\<^verbatim>\<open>'Looking for face...'\<close>\<close>
| PleaseLook            \<comment> \<open>\<^verbatim>\<open>'Please look at the camera'\<close>\<close>
| VerifyingStatus       \<comment> \<open>\<^verbatim>\<open>'Verifying face...'\<close>\<close>
| NoMatch f64           \<comment> \<open>\<^verbatim>\<open>`No match (${(similarity * 100).toFixed(1)}%)`\<close>\<close>
| PositionFace          \<comment> \<open>\<^verbatim>\<open>'Position face in center'\<close>\<close>
| MultipleFaces         \<comment> \<open>\<^verbatim>\<open>'Multiple faces detected. Only one person allowed.'\<close>\<close>

record face_loop =
  hasVerified :: bool
  detectionInterval :: bool
  lastDetectionTime :: int
  referenceDescriptor :: "f64 list option"
  face_status :: face_status
  faceDetected :: bool
  similarityScore :: "f64 option"
  isVerifying :: bool

text \<open>
  What one run of the interval callback meets: \<^verbatim>\<open>videoRef.current\<close>, the result of the
  awaited detection (\<open>None\<close> when it throws), \<^verbatim>\<open>Date.now()\<close>, and the ISO time string the
  controller's callback would read.
\<close>

record face_input =
  videoRef :: "f64 option"
  detections :: "f64 detection list option"
  now :: int
  iso_time :: string

definition startFaceDetection :: "f64 option \<Rightarrow> face_loop \<Rightarrow> face_loop" where
  "startFaceDetection video s =
     (if video = None \<or> referenceDescriptor s = None then s
      else s\<lparr>face_status := LookingForFace, hasVerified := False, detectionInterval := True\<rparr>)"

text \<open>
  The callback after its \<^verbatim>\<open>await\<close>: the new hook state and the argument of
  \<^verbatim>\<open>onVerified\<close> (\<^verbatim>\<open>similarity\<close>, \<^verbatim>\<open>confidence\<close>) when it is called.
  \<^verbatim>\<open>similarity >= MATCH_THRESHOLD\<close> and \<^verbatim>\<open>similarity < MATCH_THRESHOLD\<close> compare Numbers,
  and both are false of NaN. \<^verbatim>\<open>speakVerification\<close> touches none of these cells and is
  taken to return.
\<close>

definition detection_body ::
  "face_config \<Rightarrow> face_input \<Rightarrow> face_loop \<Rightarrow> face_loop \<times> (f64 \<times> f64) option" where
  "detection_body cfg inp s =
     (case detections inp of
        None \<Rightarrow> (s, None)
      | Some ds \<Rightarrow>
          let shouldMatch = (now inp - lastDetectionTime s \<ge> MATCHING_THROTTLE cfg)
          in case ds of
               [] \<Rightarrow> (s\<lparr>faceDetected := False, face_status := PleaseLook,
                         similarityScore := None\<rparr>, None)
             | [det] \<Rightarrow>
                 let s1 = s\<lparr>faceDetected := True\<rparr>
                 in if checkFaceQuality (videoRef inp) det \<and> shouldMatch
                    then
                      let s2 = s1\<lparr>lastDetectionTime := now inp, isVerifying := True,
                                  face_status := VerifyingStatus\<rparr>;
                          similarity = comparator cfg (Some (descriptor det))
                                         (referenceDescriptor s2);
                          s3 = s2\<lparr>similarityScore := Some similarity\<rparr>
                      in if f64_le (MATCH_THRESHOLD cfg) similarity \<and> \<not> hasVerified s3
                         then (s3\<lparr>hasVerified := True, detectionInterval := False,
                                  isVerifying := False\<rparr>,
                               Some (similarity, det_score det))
                         else if f64_lt similarity (MATCH_THRESHOLD cfg)
                         then (s3\<lparr>face_status := NoMatch similarity, isVerifying := False\<rparr>,
                               None)
                         else (s3\<lparr>isVerifying := False\<rparr>, None)
                    else (s1\<lparr>face_status := PositionFace\<rparr>, None)
             | _ \<Rightarrow> (s\<lparr>faceDetected := False, face_status := MultipleFaces\<rparr>, None))"

text \<open>
  The callback from its start: the guard
  \<^verbatim>\<open>if (!videoRef.current || hasVerifiedRef.current) return\<close>, then the body.
\<close>

definition detection_tick ::
  "face_config \<Rightarrow> face_input \<Rightarrow> face_loop \<Rightarrow> face_loop \<times> (f64 \<times> f64) option" where
  "detection_tick cfg inp s =
     (if videoRef inp = None \<or> hasVerified s then (s, None) else detection_body cfg inp s)"

text \<open>
  The events of the loop. \<open>Tick\<close>: the timer fires and the callback runs from its start
  (a cleared timer does not fire). \<open>Resume\<close>: a callback that had passed its guard and
  was waiting for the detector when another callback ran goes on after its \<^verbatim>\<open>await\<close>.
\<close>

datatype face_event = Tick face_input | Resume face_input

fun event_input :: "face_event \<Rightarrow> face_input" where
  "event_input (Tick inp) = inp"
| "event_input (Resume inp) = inp"

fun face_event_step ::
  "face_config \<Rightarrow> face_event \<Rightarrow> face_loop \<Rightarrow> face_loop \<times> (f64 \<times> f64) option" where
  "face_event_step cfg (Tick inp) s =
     (if detectionInterval s then detection_tick cfg inp s else (s, None))"
| "face_event_step cfg (Resume inp) s = detection_body cfg inp s"

text \<open>
  The loop wired to the controller (\<^verbatim>\<open>onVerified={handleFaceVerified}\<close>): the hook state,
  the controller state, and the list of the \<^verbatim>\<open>onVerified\<close> calls made so far.
\<close>

type_synonym face_system = "face_loop \<times> flow \<times> (f64 \<times> f64) list"

definition face_step :: "face_config \<Rightarrow> face_system \<Rightarrow> face_event \<Rightarrow> face_system" where
  "face_step cfg sys ev =
     (case sys of
        (s, f, calls) \<Rightarrow>
          (case face_event_step cfg ev s of
             (s', None) \<Rightarrow> (s', f, calls)
           | (s', Some result) \<Rightarrow>
               (s', handleFaceVerified result (iso_time (event_input ev)) f,
                calls @ [result])))"

definition run_face :: "face_config \<Rightarrow> face_system \<Rightarrow> face_event list \<Rightarrow> face_system" where
  "run_face cfg sys evs = foldl (face_step cfg) sys evs"

subsection \<open>Sample frames\<close>

text \<open>
  A frame 720 wide with one centred face, detected with score 0.75, whose descriptor is
  orthogonal to the reference: the cosine-based score of the two is exactly 0.5, the
  threshold of that copy of the hook.
\<close>

definition sample_detection :: "f64 detection" where
  "sample_detection =
     \<lparr>det_score = Finite (3 / 4),
      det_box = \<lparr>box_x = Finite 260, box_y = Finite 100, box_width = Finite 200,
                 box_height = Finite 240\<rparr>,
      descriptor = [Finite 1, Finite 0]\<rparr>"

definition sample_input :: "int \<Rightarrow> face_input" where
  "sample_input t = \<lparr>videoRef = Some (Finite 720), detections = Some [sample_detection],
                     now = t, iso_time = ''2024-01-01T00:00:00.000Z''\<rparr>"

definition sample_loop :: face_loop where
  "sample_loop =
     startFaceDetection (Some (Finite 720))
       \<lparr>hasVerified = False, detectionInterval = False, lastDetectionTime = 0,
        referenceDescriptor = Some [Finite 0, Finite 1], face_status = FaceInitializing,
        faceDetected = False, similarityScore = None, isVerifying = False\<rparr>"

definition sample_flow :: flow where
  "sample_flow = handleIDDetected STUDENTS ''2201547'' initial_flow"

text \<open>
  In the same frame, a face detected with score 1 whose centre lies 252 to the right of
  the centre of the frame, which is 0.35 of the width 720; over the real numbers and as
  Numbers.
\<close>

definition edge_detection_exact :: "real detection" where
  "edge_detection_exact =
     \<lparr>det_score = 1,
      det_box = \<lparr>box_x = 512, box_y = 100, box_width = 200, box_height = 240\<rparr>,
      descriptor = [1, 0]\<rparr>"

definition edge_detection :: "f64 detection" where
  "edge_detection =
     \<lparr>det_score = Finite 1,
      det_box = \<lparr>box_x = Finite 512, box_y = Finite 100, box_width = Finite 200,
                 box_height = Finite 240\<rparr>,
      descriptor = [Finite 1, Finite 0]\<rparr>"

section \<open>Controller invariants\<close>

lemma run_flow_snoc:
  "run_flow db (ops @ [c]) = apply_flow_op db c (run_flow db ops)"
  by (simp add: run_flow_def)

lemma apply_flow_op_not_mismatch:
  "currentStep f \<noteq> FAILED_MISMATCH \<Longrightarrow> currentStep (apply_flow_op db c f) \<noteq> FAILED_MISMATCH"
  by (cases c)
     (simp_all add: handleIDDetected_def handleFaceVerified_def handleFaceFailed_def
        reset_def split: option.split)



lemma run_flow_not_mismatch: "currentStep (run_flow db ops) \<noteq> FAILED_MISMATCH"
proof (induction ops rule: rev_induct)
  case Nil
  show ?case by (simp add: run_flow_def initial_flow_def)
next
  case (snoc c ops)
  then show ?case by (simp add: run_flow_snoc apply_flow_op_not_mismatch)
qed

text \<open>
  C9. The step \<^verbatim>\<open>'failed_mismatch'\<close> is declared in \<^verbatim>\<open>VERIFICATION_STATES\<close> and never
  entered: after any sequence of calls of \<^verbatim>\<open>handleIDDetected\<close>, \<^verbatim>\<open>handleFaceVerified\<close>,
  \<^verbatim>\<open>handleFaceFailed\<close> and \<^verbatim>\<open>reset\<close> from the initial state, for any registry, the
  current step differs from it.
\<close>

theorem failed_mismatch_unreachable:
  "currentStep (run_flow db ops) \<noteq> FAILED_MISMATCH \<and>
   currentStep initial_flow = SCANNING_ID"
  by (simp add: run_flow_not_mismatch initial_flow_def)









section \<open>Text reconciliation: the loops and the three stages\<close>

lemma str_includes_sublist: "str_includes s t \<longleftrightarrow> sublist t s"
proof (induction s)
  case Nil
  show ?case by simp
next
  case (Cons c s)
  have "prefix t (c # s) \<longleftrightarrow> take (length t) (c # s) = t"
  proof
    assume "prefix t (c # s)"
    then obtain zs where "c # s = t @ zs" by (auto simp: prefix_def)
    then show "take (length t) (c # s) = t" by simp
  next
    assume "take (length t) (c # s) = t"
    then show "prefix t (c # s)" using take_is_prefix [of "length t" "c # s"] by simp
  qed
  with Cons show ?case
    by (simp add: sublist_Cons_right)
qed

lemma exact_match_loop_find:
  "exact_match_loop d V = find (\<lambda>v. sublist v d) V"
  by (induction V) (simp_all add: str_includes_sublist)

lemma window_loop_find:
  "window_loop V d i = find (\<lambda>w. w \<in> set V) (map (\<lambda>j. take 7 (drop j d)) [i ..< length d - 6])"
proof (induction V d i rule: window_loop.induct)
  case (1 V d i)
  show ?case
  proof (cases "int i \<le> int (length d) - 7")
    case True
    then have lt: "i < length d - 6" by linarith
    have up: "[i ..< length d - 6] = i # [i + 1 ..< length d - 6]"
      using lt by (simp add: upt_conv_Cons)
    show ?thesis
    proof (cases "arr_includes V (substring d i (i + 7))")
      case True
      with \<open>int i \<le> int (length d) - 7\<close> show ?thesis
        by (subst window_loop.simps) (simp add: up substring_def arr_includes_def)
    next
      case False
      with \<open>int i \<le> int (length d) - 7\<close> "1.IH" [OF _ refl] show ?thesis
        by (subst window_loop.simps) (simp add: up substring_def arr_includes_def)
    qed
  next
    case False
    then have "[i ..< length d - 6] = []" by simp
    with False show ?thesis
      by (subst window_loop.simps) simp
  qed
qed

lemma digits_eq: "filter (\<lambda>c. c \<in> set ''0123456789'') text = digitsOnly text"
  unfolding digitsOnly_def isDigit_def [abs_def] by (rule refl)

lemma findValidStudentId_stages:
  "findValidStudentId V text = reconcile_spec V text"
  unfolding findValidStudentId_def reconcile_spec_def digits_eq
    exact_match_loop_find window_loop_find windows7_def substring_def arr_includes_def
  by (simp add: Let_def split: option.split)

text \<open>
  C1. For every raw text and every array \<open>V\<close> of valid identifiers,
  \<^verbatim>\<open>findValidStudentId\<close> computes what the specification describes: with \<open>D\<close> the digit
  characters of the text, the first identifier of \<open>V\<close> (in the order of \<open>V\<close>) that is a
  contiguous substring of \<open>D\<close>; if there is none and \<open>D\<close> has at least 7 characters, the
  leftmost 7-character window of \<open>D\<close> that is a member of \<open>V\<close>; failing that, the first 7
  characters of \<open>D\<close> if they are a member of \<open>V\<close>; otherwise \<^verbatim>\<open>null\<close>.
\<close>

theorem findValidStudentId_three_stages:
  "findValidStudentId V text = reconcile_spec V text"
  by (rule findValidStudentId_stages)

lemma find_SomeD: "find P xs = Some x \<Longrightarrow> P x \<and> x \<in> set xs"
  by (induction xs) (auto split: if_splits)

lemma window_in_sublist:
  "find (\<lambda>w. w \<in> set V) (windows7 D) = Some w \<Longrightarrow> w \<in> set V \<and> sublist w D"
proof -
  assume "find (\<lambda>w. w \<in> set V) (windows7 D) = Some w"
  then have "w \<in> set V" and "w \<in> set (windows7 D)"
    by (auto dest: find_SomeD)
  then obtain i where "w = take 7 (drop i D)"
    by (auto simp: windows7_def)
  then have "D = take i D @ w @ drop 7 (drop i D)"
    by (metis append_take_drop_id)
  then have "sublist w D"
    unfolding sublist_def by blast
  with \<open>w \<in> set V\<close> show ?thesis by simp
qed

lemma find_None_no_member: "find P V = None \<Longrightarrow> v \<in> set V \<Longrightarrow> \<not> P v"
  by (simp add: find_None_iff)

lemma stage23_dead:
  assumes "find (\<lambda>v. sublist v D) V = None"
  shows "find (\<lambda>w. w \<in> set V) (windows7 D) = None" and "7 \<le> length D \<Longrightarrow> take 7 D \<notin> set V"
proof -
  show "find (\<lambda>w. w \<in> set V) (windows7 D) = None"
  proof (cases "find (\<lambda>w. w \<in> set V) (windows7 D)")
    case None then show ?thesis .
  next
    case (Some w)
    from window_in_sublist [OF Some] find_None_no_member [OF assms] show ?thesis by blast
  qed
  show "take 7 D \<notin> set V" 
  proof
    assume "take 7 D \<in> set V"
    moreover have "sublist (take 7 D) D"
      by (metis append_take_drop_id sublist_appendI append_Nil)
    ultimately show False using find_None_no_member [OF assms] by blast
  qed
qed

text \<open>
  C10. When every identifier of \<open>V\<close> has length 7, the three stages are plain substring
  search: the result is the first member of \<open>V\<close> (in the order of \<open>V\<close>) that occurs
  in the digit string, and it is non-null exactly when some member of \<open>V\<close> occurs there.
  The window scan and the first-seven test add nothing to the first stage.
\<close>

theorem three_stages_are_substring_search:
  assumes "\<forall>v \<in> set V. length v = 7"
  shows "findValidStudentId V text = substring_search V text \<and>
     (findValidStudentId V text \<noteq> None \<longleftrightarrow> (\<exists>v \<in> set V. sublist v (digitsOnly text)))"
proof -
  let ?D = "digitsOnly text"
  have eq: "findValidStudentId V text = substring_search V text"
  proof (cases "find (\<lambda>v. sublist v ?D) V")
    case None
    from stage23_dead [OF None] None show ?thesis
      unfolding findValidStudentId_stages reconcile_spec_def substring_search_def digits_eq
      by (simp add: Let_def)
  next
    case (Some v)
    then show ?thesis
      unfolding findValidStudentId_stages reconcile_spec_def substring_search_def digits_eq
      by (simp add: Let_def)
  qed
  have "findValidStudentId V text \<noteq> None \<longleftrightarrow> (\<exists>v \<in> set V. sublist v (digitsOnly text))"
    unfolding eq substring_search_def by (auto simp: find_None_iff)
  with eq show ?thesis by simp
qed

theorem three_stages_are_substring_search_witness:
  "length ''2201547'' = 7 \<and>
   findValidStudentId [''2201547''] ''ID: 2201547 CARD'' =
     substring_search [''2201547''] ''ID: 2201547 CARD'' \<and>
   findValidStudentId [''2201547''] ''ID: 2201547 CARD'' = Some ''2201547''"
proof -
  have h: "\<forall>v \<in> set [''2201547'']. length v = 7" by simp
  have r: "findValidStudentId [''2201547''] ''ID: 2201547 CARD'' = Some ''2201547''"
    by code_simp
  from three_stages_are_substring_search [OF h, of "''ID: 2201547 CARD''"] h r
  show ?thesis by simp
qed


section \<open>ID acquisition loop: the attempt budget\<close>

lemma miss_tick:
  assumes "miss V inp" and "scanInterval s" and "\<not> isProcessing s"
  shows "scan_tick db V (s, f) inp =
     (if scanCount s + 1 \<ge> MAX_ATTEMPTS
      then s\<lparr>scanCount := scanCount s + 1, scanInterval := False,
             scan_error := Some timeout_message, scan_status := ScanTimeout\<rparr>
      else s\<lparr>scanCount := scanCount s + 1, scan_status := ScanningCount (scanCount s + 1)\<rparr>, f)"
  using assms
  by (auto simp: miss_def scan_tick_def scanFrame_def stopScanning_def Let_def
      split: option.splits list.splits)

lemma stopped_tick: "\<not> scanInterval s \<Longrightarrow> scan_tick db V (s, f) inp = (s, f)"
  by (simp add: scan_tick_def)

lemma run_scan_stopped: "\<not> scanInterval s \<Longrightarrow> run_scan db V (s, f) inps = (s, f)"
  by (induction inps) (simp_all add: run_scan_def stopped_tick)

lemma run_scan_misses:
  assumes "\<forall>inp \<in> set inps. miss V inp" and "scanInterval s" and "\<not> isProcessing s"
    and "scanCount s + length inps < MAX_ATTEMPTS"
  shows "\<exists>st. run_scan db V (s, f) inps =
           (s\<lparr>scanCount := scanCount s + length inps, scan_status := st\<rparr>, f)"
  using assms
proof (induction inps arbitrary: s)
  case Nil
  have "s = s\<lparr>scanCount := scanCount s + length ([]::scan_input list), scan_status := scan_status s\<rparr>"
    by simp
  then show ?case by (metis run_scan_def foldl_Nil)
next
  case (Cons inp inps)
  let ?s1 = "s\<lparr>scanCount := scanCount s + 1, scan_status := ScanningCount (scanCount s + 1)\<rparr>"
  have t: "scan_tick db V (s, f) inp = (?s1, f)"
    using Cons.prems by (simp add: miss_tick)
  have "\<exists>st. run_scan db V (?s1, f) inps =
           (?s1\<lparr>scanCount := scanCount ?s1 + length inps, scan_status := st\<rparr>, f)"
    using Cons.prems by (intro Cons.IH) simp_all
  then show ?case
    by (simp add: run_scan_def t)
qed

lemma budget_exhaustion:
  assumes "length inps = MAX_ATTEMPTS" and "\<forall>inp \<in> set inps. miss V inp"
  shows "\<exists>s'. run_scan db V (startScanning s0, f) inps = (s', f) \<and>
           \<not> scanInterval s' \<and> \<not> isProcessing s' \<and> scanCount s' = MAX_ATTEMPTS \<and>
           scan_error s' = Some timeout_message \<and> scan_status s' = ScanTimeout"
proof -
  from assms(1) obtain pre last where inps: "inps = pre @ [last]"
    by (cases inps rule: rev_cases) (auto simp: MAX_ATTEMPTS_def)
  let ?s = "startScanning s0"
  have len: "length pre = MAX_ATTEMPTS - 1" using assms(1) inps by simp
  have "\<exists>st. run_scan db V (?s, f) pre =
           (?s\<lparr>scanCount := scanCount ?s + length pre, scan_status := st\<rparr>, f)"
    using assms(2) inps len
    by (intro run_scan_misses) (simp_all add: startScanning_def MAX_ATTEMPTS_def)
  then obtain st where pre: "run_scan db V (?s, f) pre =
           (?s\<lparr>scanCount := MAX_ATTEMPTS - 1, scan_status := st\<rparr>, f)"
    using len by (auto simp: startScanning_def)
  have "run_scan db V (?s, f) inps =
          scan_tick db V (?s\<lparr>scanCount := MAX_ATTEMPTS - 1, scan_status := st\<rparr>, f) last"
    by (simp add: inps run_scan_def pre [unfolded run_scan_def])
  also have "\<dots> = (?s\<lparr>scanCount := MAX_ATTEMPTS, scanInterval := False,
             scan_error := Some timeout_message, scan_status := ScanTimeout\<rparr>, f)"
    using assms(2) inps
    by (subst miss_tick) (simp_all add: startScanning_def MAX_ATTEMPTS_def)
  finally show ?thesis
    by (simp add: startScanning_def)
qed

lemma blank_miss: "miss getAllValidStudentIDs blank_frame"
  by (simp add: miss_def blank_frame_def) code_simp

lemma sixty_blank_frames:
  "length (replicate 60 blank_frame) = MAX_ATTEMPTS \<and>
   (\<forall>inp \<in> set (replicate 60 blank_frame). miss getAllValidStudentIDs inp)"
  by (simp add: MAX_ATTEMPTS_def blank_miss)

text \<open>
  C2, as stated, fails: the exhausted budget is reported in the scanner hook only. Sixty
  ticks on which the OCR reads \<^verbatim>\<open>12345\<close>, against the registry of the repository, end
  with the status \<^verbatim>\<open>'Scan timeout'\<close> in the hook and with the controller untouched, in
  its step \<^verbatim>\<open>'scanning_id'\<close>: no transition to a failure step takes place.
\<close>

theorem timeout_not_propagated_counterexample:
  "scan_status (fst (run_scan STUDENTS getAllValidStudentIDs
       (startScanning initial_scanner, initial_flow) (replicate 60 blank_frame))) = ScanTimeout \<and>
   snd (run_scan STUDENTS getAllValidStudentIDs
       (startScanning initial_scanner, initial_flow) (replicate 60 blank_frame)) = initial_flow \<and>
   currentStep (snd (run_scan STUDENTS getAllValidStudentIDs
       (startScanning initial_scanner, initial_flow) (replicate 60 blank_frame)))
     \<notin> {FAILED_ID, FAILED_FACE, FAILED_MISMATCH}"
proof -
  from sixty_blank_frames budget_exhaustion [of "replicate 60 blank_frame"
      getAllValidStudentIDs STUDENTS initial_scanner initial_flow]
  obtain s' where "run_scan STUDENTS getAllValidStudentIDs
       (startScanning initial_scanner, initial_flow) (replicate 60 blank_frame) = (s', initial_flow)"
    and "scan_status s' = ScanTimeout"
    by blast
  then show ?thesis by (simp add: initial_flow_def)
qed

text \<open>
  C2, amended. When the loop reaches its attempt budget (sixty ticks on which a frame is
  read and no identifier is reconciled), it clears its timer and reports the timeout in
  its own state, as the error message and the status \<^verbatim>\<open>'Scan timeout'\<close>; it makes no call
  to the controller, whose state stays as it was, and later firings change nothing.
\<close>

theorem budget_exhaustion_stays_local:
  assumes "length inps = MAX_ATTEMPTS" and "\<forall>inp \<in> set inps. miss V inp"
  shows "\<exists>s'. run_scan db V (startScanning s0, f) inps = (s', f) \<and>
           \<not> scanInterval s' \<and> scanCount s' = 60 \<and>
           scan_error s' = Some ''Could not detect student ID. Please try again.'' \<and>
           scan_status s' = ScanTimeout \<and>
           (\<forall>more. run_scan db V (s', f) more = (s', f))"
proof -
  from budget_exhaustion [OF assms, of db s0 f]
  obtain s' where "run_scan db V (startScanning s0, f) inps = (s', f)"
    and "\<not> scanInterval s'" and "scanCount s' = MAX_ATTEMPTS"
    and "scan_error s' = Some timeout_message" and "scan_status s' = ScanTimeout"
    by blast
  then show ?thesis
    by (auto simp: MAX_ATTEMPTS_def timeout_message_def run_scan_stopped)
qed

theorem budget_exhaustion_stays_local_witness:
  "\<exists>s'. run_scan STUDENTS getAllValidStudentIDs (startScanning initial_scanner, initial_flow)
          (replicate 60 blank_frame) = (s', initial_flow) \<and>
        \<not> scanInterval s' \<and> scanCount s' = 60 \<and> scan_status s' = ScanTimeout \<and>
        currentStep initial_flow = SCANNING_ID"
proof -
  from sixty_blank_frames have l: "length (replicate 60 blank_frame) = MAX_ATTEMPTS"
    and m: "\<forall>inp \<in> set (replicate 60 blank_frame). miss getAllValidStudentIDs inp"
    by blast+
  from budget_exhaustion_stays_local [OF l m, of STUDENTS initial_scanner initial_flow]
  show ?thesis by (auto simp: initial_flow_def)
qed


section \<open>Comparators in exact arithmetic\<close>

lemma exact_simps [simp]:
  "lit exact k = of_int k" "dec exact m n = of_int m / 10 ^ n" "add exact = (+)"
  "sub exact = (-)" "mul exact = (*)" "quo exact = (/)" "root exact = sqrt"
  "absn exact = abs" "maxn exact = max" "eq exact = (=)" "lt exact = (<)" "le exact = (\<le>)"
  by (simp_all add: exact_def)

lemma cs_step:
  fixes d a b x y :: real
  assumes "d\<^sup>2 \<le> a * b" and "0 \<le> a" and "0 \<le> b"
  shows "(d + x * y)\<^sup>2 \<le> (a + x * x) * (b + y * y)"
proof -
  have nn: "0 \<le> a * y\<^sup>2 + b * x\<^sup>2" using assms by simp
  have "(2 * d * x * y)\<^sup>2 = 4 * d\<^sup>2 * (x\<^sup>2 * y\<^sup>2)"
    by (simp add: power2_eq_square)
  also have "\<dots> \<le> 4 * (a * b) * (x\<^sup>2 * y\<^sup>2)"
    using assms(1) by (intro mult_right_mono mult_left_mono) simp_all
  also have "\<dots> \<le> (a * y\<^sup>2 + b * x\<^sup>2)\<^sup>2"
  proof -
    have "0 \<le> (a * y\<^sup>2 - b * x\<^sup>2)\<^sup>2" by simp
    then show ?thesis by (simp add: power2_eq_square algebra_simps)
  qed
  finally have "2 * d * x * y \<le> a * y\<^sup>2 + b * x\<^sup>2"
    using nn by (meson order_trans abs_le_square_iff abs_ge_self abs_of_nonneg power2_le_imp_le)
  moreover have "(d + x * y)\<^sup>2 = d\<^sup>2 + 2 * d * x * y + x\<^sup>2 * y\<^sup>2"
    by (simp add: power2_eq_square algebra_simps)
  moreover have "(a + x * x) * (b + y * y) = a * b + (a * y\<^sup>2 + b * x\<^sup>2) + x\<^sup>2 * y\<^sup>2"
    by (simp add: power2_eq_square algebra_simps)
  ultimately show ?thesis using assms(1) by linarith
qed

lemma cosine_loop_cs:
  assumes "cosine_loop exact (d, a, b) xs ys = (d', a', b')"
    and "d\<^sup>2 \<le> a * b" and "0 \<le> a" and "0 \<le> b"
  shows "d'\<^sup>2 \<le> a' * b' \<and> 0 \<le> a' \<and> 0 \<le> b'"
  using assms
proof (induction xs arbitrary: ys d a b)
  case Nil
  then show ?case by simp
next
  case (Cons x xs)
  show ?case
  proof (cases ys)
    case Nil
    with Cons.prems show ?thesis by simp
  next
    case (Cons y ys')
    with Cons.prems(1)
    have "cosine_loop exact (d + x * y, a + x * x, b + y * y) xs ys' = (d', a', b')"
      by simp
    moreover have "(d + x * y)\<^sup>2 \<le> (a + x * x) * (b + y * y)"
      using Cons.prems(2-4) by (intro cs_step)
    moreover have "0 \<le> a + x * x" "0 \<le> b + y * y"
      using Cons.prems(3,4) by simp_all
    ultimately show ?thesis by (rule Cons.IH)
  qed
qed

lemma cosine_loop_swap:
  assumes "\<And>x y. mul A x y = mul A y x"
    and "cosine_loop A (d, a, b) xs ys = (d', a', b')"
  shows "cosine_loop A (d, b, a) ys xs = (d', b', a')"
  using assms(2)
proof (induction xs arbitrary: ys d a b)
  case Nil
  then show ?case by (cases ys) simp_all
next
  case (Cons x xs)
  show ?case
  proof (cases ys)
    case Nil
    with Cons.prems show ?thesis by simp
  next
    case (Cons y ys')
    with Cons.prems Cons.IH [of "add A d (mul A x y)" "add A a (mul A x x)" "add A b (mul A y y)" ys']
    show ?thesis by (simp add: assms(1) [of y x])
  qed
qed

lemma cosine_exit_swap:
  assumes "\<And>x y. mul A x y = mul A y x"
  shows "cosine_exit A b a = cosine_exit A a b"
proof (cases a)
  case None
  then show ?thesis by (cases b) (simp_all add: cosine_exit_def)
next
  case (Some xs)
  note a = this
  show ?thesis
  proof (cases b)
    case None
    with a show ?thesis by (simp add: cosine_exit_def)
  next
    case (Some ys)
    obtain d na nb where l: "cosine_loop A (lit A 0, lit A 0, lit A 0) xs ys = (d, na, nb)"
      by (cases "cosine_loop A (lit A 0, lit A 0, lit A 0) xs ys") auto
    from cosine_loop_swap [OF assms l]
    have "cosine_loop A (lit A 0, lit A 0, lit A 0) ys xs = (d, nb, na)" .
    with l a Some show ?thesis
      by (auto simp: cosine_exit_def Let_def assms [of "root A na" "root A nb"])
  qed
qed

lemma cosine_symmetric_in:
  assumes "\<And>x y. mul A x y = mul A y x"
  shows "cosineSimilarity_in A a b = cosineSimilarity_in A b a"
  by (simp add: cosineSimilarity_in_def cosine_exit_swap [OF assms, of b a])

lemma cosine_bounds:
  "0 \<le> cosineSimilarity a b \<and> cosineSimilarity a b \<le> 1"
proof (cases "cosine_exit exact a b")
  case MissingOrMismatch
  then show ?thesis by (simp add: cosineSimilarity_in_def)
next
  case ZeroDenominator
  then show ?thesis by (simp add: cosineSimilarity_in_def)
next
  case (Quotient dot denom)
  then obtain xs ys na nb where "cosine_loop exact (0, 0, 0) xs ys = (dot, na, nb)"
    and denom: "denom = sqrt na * sqrt nb" and nz: "denom \<noteq> 0"
    by (auto simp: cosine_exit_def Let_def split: option.splits if_splits prod.splits)
  from cosine_loop_cs [OF this(1)] have cs: "dot\<^sup>2 \<le> na * nb" and "0 \<le> na" and "0 \<le> nb"
    by simp_all
  then have pos: "0 < denom" using nz denom
    by (metis less_eq_real_def mult_nonneg_nonneg real_sqrt_ge_zero)
  have "\<bar>dot\<bar> \<le> denom"
  proof -
    have "\<bar>dot\<bar> = sqrt (dot\<^sup>2)" by simp
    also have "\<dots> \<le> sqrt (na * nb)" using cs by (rule real_sqrt_le_mono)
    also have "\<dots> = denom" by (simp add: denom real_sqrt_mult)
    finally show ?thesis .
  qed
  then have "- 1 \<le> dot / denom \<and> dot / denom \<le> 1"
    using pos by (simp add: pos_le_divide_eq pos_divide_le_eq abs_le_iff)
  with Quotient show ?thesis by (simp add: cosineSimilarity_in_def)
qed

lemma distance_loop_nonneg:
  "0 \<le> acc \<Longrightarrow> 0 \<le> distance_loop exact acc xs ys"
proof (induction xs arbitrary: ys acc)
  case Nil
  then show ?case by simp
next
  case (Cons x xs)
  then show ?case by (cases ys) (simp_all add: Let_def)
qed

lemma distance_loop_swap:
  "distance_loop exact acc ys xs = distance_loop exact acc xs ys"
proof (induction xs arbitrary: ys acc)
  case Nil
  then show ?case by (cases ys) simp_all
next
  case (Cons x xs)
  show ?case
  proof (cases ys)
    case Nil
    then show ?thesis by simp
  next
    case (Cons y ys')
    have "(y - x) * (y - x) = (x - y) * (x - y)" by (simp add: algebra_simps)
    with Cons Cons.IH show ?thesis by (simp add: Let_def)
  qed
qed

lemma face_symmetric: "faceSimilarity a b = faceSimilarity b a"
  by (cases a; cases b) (auto simp: faceSimilarity_in_def distance_loop_swap Let_def)

lemma face_bounds: "0 \<le> faceSimilarity a b \<and> faceSimilarity a b \<le> 1"
  by (cases a; cases b) (auto simp: faceSimilarity_in_def Let_def distance_loop_nonneg)

lemma cosine_loop_self:
  "cosine_loop exact (d, d, d) xs xs = (d + (\<Sum>x\<leftarrow>xs. x * x), d + (\<Sum>x\<leftarrow>xs. x * x), d + (\<Sum>x\<leftarrow>xs. x * x))"
  by (induction xs arbitrary: d) (simp_all add: algebra_simps)

lemma sum_squares_pos:
  fixes xs :: "real list"
  assumes "\<exists>x \<in> set xs. x \<noteq> 0"
  shows "0 < (\<Sum>x\<leftarrow>xs. x * x)"
proof -
  have nn: "0 \<le> (\<Sum>x\<leftarrow>ys. x * x)" for ys :: "real list"
    by (induction ys) simp_all
  from assms show ?thesis
  proof (induction xs)
    case Nil
    then show ?case by simp
  next
    case (Cons x xs)
    show ?case
    proof (cases "x = 0")
      case True
      with Cons show ?thesis by simp
    next
      case False
      then have "0 < x * x" by (cases "0 < x") (simp_all add: zero_less_mult_iff)
      with nn [of xs] show ?thesis by simp
    qed
  qed
qed

lemma cosine_self:
  assumes "\<exists>x \<in> set xs. x \<noteq> 0"
  shows "cosineSimilarity (Some xs) (Some xs) = 1"
proof -
  let ?S = "\<Sum>x\<leftarrow>xs. x * x"
  have S: "0 < ?S" using assms by (rule sum_squares_pos)
  have l: "cosine_loop exact (0, 0, 0) xs xs = (?S, ?S, ?S)"
    using cosine_loop_self [of 0 xs] by simp
  have "sqrt ?S * sqrt ?S = ?S" using S by simp
  with S l have "cosine_exit exact (Some xs) (Some xs) = Quotient ?S ?S"
    by (simp add: cosine_exit_def Let_def)
  with S show ?thesis by (simp add: cosineSimilarity_in_def)
qed

lemma cosine_loop_zero_left:
  assumes "\<forall>x \<in> set xs. x = 0"
  shows "\<exists>nb. cosine_loop exact (0, 0, nb0) xs ys = (0, 0, nb)"
  using assms
proof (induction xs arbitrary: ys nb0)
  case Nil
  then show ?case by simp
next
  case (Cons x xs)
  then show ?case by (cases ys) simp_all
qed

lemma cosine_zero_left:
  assumes "length xs = length ys" and "\<forall>x \<in> set xs. x = 0"
  shows "cosine_exit exact (Some xs) (Some ys) = ZeroDenominator"
proof -
  from cosine_loop_zero_left [OF assms(2), of 0 ys]
  obtain nb where "cosine_loop exact (0, 0, 0) xs ys = (0, 0, nb)" by blast
  with assms(1) show ?thesis by (simp add: cosine_exit_def)
qed

lemma exact_mul_commute: "mul exact x y = mul exact y x"
  by simp

lemma cosine_zero_either:
  assumes "length xs = length ys" and "(\<forall>x \<in> set xs. x = 0) \<or> (\<forall>y \<in> set ys. y = 0)"
  shows "cosine_exit exact (Some xs) (Some ys) = ZeroDenominator"
  using assms cosine_zero_left [of xs ys] cosine_zero_left [of ys xs]
    cosine_exit_swap [of exact "Some xs" "Some ys", OF exact_mul_commute]
  by auto

lemma cosine_quotient_nonzero:
  "cosine_exit A a b = Quotient dot denom \<Longrightarrow> \<not> eq A denom (lit A 0)"
  by (auto simp: cosine_exit_def Let_def split: option.splits if_splits prod.splits)


section \<open>Double precision: evaluating the rounding\<close>

lemma pow2_powr: "pow2 e = 2 powr (of_int e)"
proof (cases "0 \<le> e")
  case True
  then show ?thesis
    by (simp add: pow2_def powr_real_of_int)
next
  case False
  then show ?thesis
    by (simp add: pow2_def powr_real_of_int inverse_eq_divide)
qed

lemma binade_eqI:
  assumes "pow2 e \<le> \<bar>x\<bar>" and "\<bar>x\<bar> < pow2 (e + 1)"
  shows "binade x = e"
proof -
  have "0 < pow2 e" by (simp add: pow2_powr)
  with assms(1) have pos: "0 < \<bar>x\<bar>" by linarith
  have "2 powr (of_int e) \<le> \<bar>x\<bar> \<and> \<bar>x\<bar> < 2 powr (of_int e + 1)"
    using assms by (simp add: pow2_powr add.commute)
  with pos show ?thesis
    unfolding binade_def by (subst floor_log_eq_powr_iff) simp_all
qed

lemma round_half_even_eqI:
  assumes "of_int m - 1 / 2 < y" and "y < of_int m + 1 / 2"
  shows "round_half_even y = m"
proof (cases "of_int m \<le> y")
  case True
  with assms(2) have "\<lfloor>y\<rfloor> = m" by (intro floor_unique) linarith+
  with assms(2) show ?thesis by (simp add: round_half_even_def)
next
  case False
  with assms(1) have "\<lfloor>y\<rfloor> = m - 1" by (intro floor_unique) simp_all
  with assms(1) show ?thesis by (simp add: round_half_even_def)
qed

lemma fl_eqI:
  assumes "pow2 e \<le> \<bar>x\<bar>" and "\<bar>x\<bar> < pow2 (e + 1)" and "- 1022 \<le> e"
    and "of_int m - 1 / 2 < \<bar>x\<bar> / pow2 (e - 52)"
    and "\<bar>x\<bar> / pow2 (e - 52) < of_int m + 1 / 2"
    and "of_int m * pow2 (e - 52) < pow2 1024"
  shows "fl x = Finite (sgn x * (of_int m * pow2 (e - 52)))"
proof -
  have "0 < pow2 e" by (simp add: pow2_powr)
  with assms(1) have nz: "x \<noteq> 0" by auto
  have b: "max (binade x) (- 1022) = e"
    using binade_eqI [OF assms(1,2)] assms(3) by simp
  have r: "round_half_even (\<bar>x\<bar> / pow2 (e - 52)) = m"
    using assms(4,5) by (rule round_half_even_eqI)
  show ?thesis
    using nz assms(6) by (simp add: fl_def b r Let_def)
qed

lemma fl_zero: "fl 0 = Finite 0"
  by (simp add: fl_def)

lemma fl_sqrt_eqI:
  assumes "(pow2 e)\<^sup>2 \<le> x" and "x < (pow2 (e + 1))\<^sup>2" and "- 1022 \<le> e"
    and "1 \<le> m"
    and "((of_int m - 1 / 2) * pow2 (e - 52))\<^sup>2 < x"
    and "x < ((of_int m + 1 / 2) * pow2 (e - 52))\<^sup>2"
    and "of_int m * pow2 (e - 52) < pow2 1024"
  shows "fl (sqrt x) = Finite (of_int m * pow2 (e - 52))"
proof -
  have p: "0 < pow2 k" for k by (simp add: pow2_powr)
  have x: "0 < x" using assms(1) p [of e]
    by (meson less_le_trans zero_less_power)
  have 1: "pow2 e \<le> \<bar>sqrt x\<bar>"
    using assms(1) x by (simp add: real_le_rsqrt)
  have 2: "\<bar>sqrt x\<bar> < pow2 (e + 1)"
    using assms(2) x p [of "e + 1"] by (simp add: real_less_lsqrt)
  have lo: "(of_int m - 1 / 2) * pow2 (e - 52) < sqrt x"
    using assms(5) by (rule real_less_rsqrt)
  have hi: "sqrt x < (of_int m + 1 / 2) * pow2 (e - 52)"
    using assms(4,6) x p [of "e - 52"] by (intro real_less_lsqrt) simp_all
  have 4: "of_int m - 1 / 2 < \<bar>sqrt x\<bar> / pow2 (e - 52)"
    using lo x p [of "e - 52"] by (simp add: pos_less_divide_eq)
  have 5: "\<bar>sqrt x\<bar> / pow2 (e - 52) < of_int m + 1 / 2"
    using hi x p [of "e - 52"] by (simp add: pos_divide_less_eq)
  from fl_eqI [OF 1 2 assms(3) 4 5 assms(7)] x show ?thesis by simp
qed

lemma fl_1: "fl 1 = Finite 1"
  using fl_eqI [of 0 1 "2 ^ 52"] by (simp add: pow2_def)

lemma fl_2: "fl 2 = Finite 2"
  using fl_eqI [of 1 2 "2 ^ 52"] by (simp add: pow2_def)

lemma fl_3: "fl 3 = Finite 3"
  using fl_eqI [of 1 3 "3 * 2 ^ 51"] by (simp add: pow2_def)

lemma fl_m1: "fl (- 1) = Finite (- 1)"
  using fl_eqI [of 0 "- 1" "2 ^ 52"] by (simp add: pow2_def)

lemma fl_m2: "fl (- 2) = Finite (- 2)"
  using fl_eqI [of 1 "- 2" "2 ^ 52"] by (simp add: pow2_def)

lemma fl_m3: "fl (- 3) = Finite (- 3)"
  using fl_eqI [of 1 "- 3" "3 * 2 ^ 51"] by (simp add: pow2_def)

lemma fl_sqrt_2: "fl (sqrt 2) = Finite (6369051672525773 / 2 ^ 52)"
  using fl_sqrt_eqI [of 0 2 6369051672525773] by (simp add: pow2_def power2_eq_square)

lemma fl_sqrt_3: "fl (sqrt 3) = Finite (3900231685776981 / 2 ^ 51)"
  using fl_sqrt_eqI [of 0 3 7800463371553962] by (simp add: pow2_def power2_eq_square)

lemma fl_sq_2: "fl (6369051672525773 / 2 ^ 52 * (6369051672525773 / 2 ^ 52)) = Finite (4503599627370497 / 2 ^ 51)"
  using fl_eqI [of 1 "6369051672525773 / 2 ^ 52 * (6369051672525773 / 2 ^ 52)" 4503599627370497]
  by (simp add: pow2_def)

lemma fl_sq_3: "fl (3900231685776981 / 2 ^ 51 * (3900231685776981 / 2 ^ 51)) = Finite (6755399441055743 / 2 ^ 51)"
  using fl_eqI [of 1 "3900231685776981 / 2 ^ 51 * (3900231685776981 / 2 ^ 51)" 6755399441055743]
  by (simp add: pow2_def)

lemma fl_q_2: "fl (2 / (4503599627370497 / 2 ^ 51)) = Finite (4503599627370495 / 2 ^ 52)"
  using fl_eqI [of "- 1" "2 / (4503599627370497 / 2 ^ 51)" 9007199254740990]
  by (simp add: pow2_def)

lemma fl_q_3: "fl (- 3 / (6755399441055743 / 2 ^ 51)) = Finite (- (4503599627370497 / 2 ^ 52))"
  using fl_eqI [of 0 "- 3 / (6755399441055743 / 2 ^ 51)" 4503599627370497]
  by (simp add: pow2_def)

lemma fl_a_2: "fl (4503599627370495 / 2 ^ 52 + 1) = Finite (9007199254740991 / 2 ^ 52)"
  using fl_eqI [of 0 "4503599627370495 / 2 ^ 52 + 1" 9007199254740991]
  by (simp add: pow2_def)

lemma fl_a_3: "fl (- (4503599627370497 / 2 ^ 52) + 1) = Finite (- (1 / 2 ^ 52))"
  using fl_eqI [of "- 52" "- (4503599627370497 / 2 ^ 52) + 1" "2 ^ 52"]
  by (simp add: pow2_def)

lemma fl_h_2: "fl (9007199254740991 / 2 ^ 52 / 2) = Finite (9007199254740991 / 2 ^ 53)"
  using fl_eqI [of "- 1" "9007199254740991 / 2 ^ 52 / 2" 9007199254740991]
  by (simp add: pow2_def)

lemma fl_h_3: "fl (- (1 / 2 ^ 52) / 2) = Finite (- (1 / 2 ^ 53))"
  using fl_eqI [of "- 53" "- (1 / 2 ^ 52) / 2" "2 ^ 52"]
  by (simp add: pow2_def)


section \<open>Comparators in double precision\<close>

lemma binary64_simps [simp]:
  "lit binary64 k = fl (of_int k)" "dec binary64 m n = fl (of_int m / 10 ^ n)"
  "add binary64 = f64_add" "sub binary64 = f64_sub" "mul binary64 = f64_mul"
  "quo binary64 = f64_div" "root binary64 = f64_sqrt" "absn binary64 = f64_abs"
  "maxn binary64 = f64_max" "eq binary64 = f64_eq" "lt binary64 = f64_lt"
  "le binary64 = f64_le"
  by (simp_all add: binary64_def)

lemma loop_ones:
  "cosine_loop binary64 (Finite 0, Finite 0, Finite 0) [Finite 1, Finite 1] [Finite 1, Finite 1] =
     (Finite 2, Finite 2, Finite 2)"
  by (simp add: fl_1 fl_2)

lemma loop_opposite:
  "cosine_loop binary64 (Finite 0, Finite 0, Finite 0)
     [Finite 1, Finite 1, Finite 1] [Finite (- 1), Finite (- 1), Finite (- 1)] =
     (Finite (- 3), Finite 3, Finite 3)"
  by (simp add: fl_1 fl_2 fl_3 fl_m1 fl_m2 fl_m3)

lemma exit_ones:
  "cosine_exit binary64 (Some [Finite 1, Finite 1]) (Some [Finite 1, Finite 1]) =
     Quotient (Finite 2) (Finite (4503599627370497 / 2 ^ 51))"
proof -
  have "f64_mul (f64_sqrt (Finite 2)) (f64_sqrt (Finite 2)) = Finite (4503599627370497 / 2 ^ 51)"
    using fl_sqrt_2 fl_sq_2 by simp
  then show ?thesis
    by (simp add: cosine_exit_def fl_zero fl_1 fl_2 f64_eq_def Let_def)
qed

lemma cosine_ones:
  "cosineSimilarity_in binary64 (Some [Finite 1, Finite 1]) (Some [Finite 1, Finite 1]) =
     Finite (9007199254740991 / 2 ^ 53)"
proof -
  have "f64_div (Finite 2) (Finite (4503599627370497 / 2 ^ 51)) = Finite (4503599627370495 / 2 ^ 52)"
    using fl_q_2 by simp
  moreover have "f64_add (Finite (4503599627370495 / 2 ^ 52)) (Finite 1) = Finite (9007199254740991 / 2 ^ 52)"
    using fl_a_2 by simp
  moreover have "f64_div (Finite (9007199254740991 / 2 ^ 52)) (Finite 2) = Finite (9007199254740991 / 2 ^ 53)"
    using fl_h_2 by simp
  ultimately show ?thesis
    by (simp only: cosineSimilarity_in_def exit_ones cosine_exit.case binary64_simps
        of_int_1 of_int_numeral fl_1 fl_2)
qed

lemma exit_opposite:
  "cosine_exit binary64 (Some [Finite 1, Finite 1, Finite 1])
     (Some [Finite (- 1), Finite (- 1), Finite (- 1)]) =
     Quotient (Finite (- 3)) (Finite (6755399441055743 / 2 ^ 51))"
proof -
  have "f64_mul (f64_sqrt (Finite 3)) (f64_sqrt (Finite 3)) = Finite (6755399441055743 / 2 ^ 51)"
    using fl_sqrt_3 fl_sq_3 by simp
  then show ?thesis
    by (simp add: cosine_exit_def fl_zero fl_1 fl_2 fl_3 fl_m1 fl_m2 fl_m3 f64_eq_def Let_def)
qed

lemma cosine_opposite:
  "cosineSimilarity_in binary64 (Some [Finite 1, Finite 1, Finite 1])
     (Some [Finite (- 1), Finite (- 1), Finite (- 1)]) = Finite (- (1 / 2 ^ 53))"
proof -
  have "f64_div (Finite (- 3)) (Finite (6755399441055743 / 2 ^ 51)) = Finite (- (4503599627370497 / 2 ^ 52))"
    using fl_q_3 by simp
  moreover have "f64_add (Finite (- (4503599627370497 / 2 ^ 52))) (Finite 1) = Finite (- (1 / 2 ^ 52))"
    using fl_a_3 by simp
  moreover have "f64_div (Finite (- (1 / 2 ^ 52))) (Finite 2) = Finite (- (1 / 2 ^ 53))"
    using fl_h_3 by simp
  ultimately show ?thesis
    by (simp only: cosineSimilarity_in_def exit_opposite cosine_exit.case binary64_simps
        of_int_1 of_int_numeral fl_1 fl_2)
qed

lemma f64_mul_commute: "f64_mul u v = f64_mul v u"
  by (cases u; cases v) (simp_all add: mult.commute)

lemma binary64_mul_commute: "mul binary64 x y = mul binary64 y x"
  by (simp add: f64_mul_commute)

lemma cosine_symmetric_binary64:
  "cosineSimilarity_in binary64 a b = cosineSimilarity_in binary64 b a"
  by (rule cosine_symmetric_in) (rule binary64_mul_commute)

lemma binade_neg: "binade (- x) = binade x"
  by (simp add: binade_def)

lemma fl_neg: "fl (- x) = f64_neg (fl x)"
  by (simp add: fl_def binade_neg Let_def sgn_minus)

lemma f64_sub_swap: "f64_sub v u = f64_neg (f64_sub u v)"
proof (cases u; cases v)
  fix x y assume "u = Finite x" "v = Finite y"
  then show ?thesis
    using fl_neg [of "x - y"] by (simp add: f64_sub_def)
qed (simp_all add: f64_sub_def)

lemma f64_mul_neg_neg: "f64_mul (f64_neg u) (f64_neg u) = f64_mul u u"
  by (cases u) (simp_all add: signed_inf_def)

lemma distance_loop_swap_binary64:
  "distance_loop binary64 acc ys xs = distance_loop binary64 acc xs ys"
proof (induction xs arbitrary: ys acc)
  case Nil
  then show ?case by (cases ys) simp_all
next
  case (Cons x xs)
  show ?case
  proof (cases ys)
    case Nil
    then show ?thesis by simp
  next
    case (Cons y ys')
    have "f64_mul (f64_sub y x) (f64_sub y x) = f64_mul (f64_sub x y) (f64_sub x y)"
      by (simp only: f64_sub_swap [of y x] f64_mul_neg_neg)
    with Cons Cons.IH show ?thesis by (simp add: Let_def)
  qed
qed

lemma face_symmetric_binary64:
  "faceSimilarity_in binary64 a b = faceSimilarity_in binary64 b a"
  by (cases a; cases b) (auto simp: faceSimilarity_in_def distance_loop_swap_binary64 Let_def)

lemma cosine_loop_third:
  "length xs = length ys \<Longrightarrow>
   snd (snd (cosine_loop A (d, a, b) xs ys)) = sum_squares A b ys"
proof (induction xs arbitrary: ys d a b)
  case Nil
  then show ?case by simp
next
  case (Cons x xs)
  then show ?case by (cases ys) simp_all
qed

lemma cosine_loop_zero_left_binary64:
  assumes "\<forall>u \<in> set us. u = Finite 0" and "\<forall>v \<in> set vs. \<exists>r. v = Finite r"
  shows "\<exists>nb. cosine_loop binary64 (Finite 0, Finite 0, acc) us vs = (Finite 0, Finite 0, nb)"
  using assms
proof (induction us arbitrary: vs acc)
  case Nil
  then show ?case by simp
next
  case (Cons u us)
  show ?case
  proof (cases vs)
    case Nil
    then show ?thesis by simp
  next
    case (Cons v vs')
    with Cons.prems obtain r where "v = Finite r" and "u = Finite 0" by auto
    with Cons Cons.prems Cons.IH [of vs'] show ?thesis
      by (simp add: fl_zero)
  qed
qed

lemma cosine_zero_left_binary64:
  assumes "length us = length vs" and "\<forall>u \<in> set us. u = Finite 0"
    and "\<forall>v \<in> set vs. \<exists>r. v = Finite r"
    and "f64_sqrt (sum_squares binary64 (Finite 0) vs) = Finite n"
  shows "cosine_exit binary64 (Some us) (Some vs) = ZeroDenominator"
proof -
  from cosine_loop_zero_left_binary64 [OF assms(2,3), of "Finite 0"]
  obtain nb where l: "cosine_loop binary64 (Finite 0, Finite 0, Finite 0) us vs = (Finite 0, Finite 0, nb)"
    by blast
  with cosine_loop_third [OF assms(1), of binary64 "Finite 0" "Finite 0" "Finite 0"]
  have "nb = sum_squares binary64 (Finite 0) vs" by simp
  with assms(4) have "f64_sqrt nb = Finite n" by simp
  with l assms(1) show ?thesis
    by (simp add: cosine_exit_def fl_zero f64_eq_def)
qed


section \<open>Quality gate\<close>

lemma f64_not_lt: "u \<noteq> NaN \<Longrightarrow> v \<noteq> NaN \<Longrightarrow> (\<not> f64_lt u v) = f64_le v u"
  by (cases u; cases v) auto

lemma fl_not_NaN [simp]: "fl x \<noteq> NaN"
  by (simp add: fl_def Let_def)

lemma f64_add_Finite_not_NaN: "v \<noteq> NaN \<Longrightarrow> f64_add (Finite x) v \<noteq> NaN"
  by (cases v) simp_all

lemma f64_sub_Finite_not_NaN: "u \<noteq> NaN \<Longrightarrow> f64_sub u (Finite y) \<noteq> NaN"
  by (cases u) (simp_all add: f64_sub_def)

lemma f64_abs_not_NaN: "u \<noteq> NaN \<Longrightarrow> f64_abs u \<noteq> NaN"
  by (cases u) simp_all

lemma fl_half: "fl (5 / 10) = Finite (1 / 2)"
  using fl_eqI [of "- 1" "5 / 10" "2 ^ 52"] by (simp add: pow2_def)

lemma fl_035: "fl (35 / 10 ^ 2) = Finite (6305039478318694 / 2 ^ 54)"
  using fl_eqI [of "- 2" "35 / 10 ^ 2" 6305039478318694] by (simp add: pow2_def)

lemma fl_015: "fl (15 / 10 ^ 2) = Finite (5404319552844595 / 2 ^ 55)"
  using fl_eqI [of "- 3" "15 / 10 ^ 2" 5404319552844595] by (simp add: pow2_def)

lemma fl_085: "fl (85 / 10 ^ 2) = Finite (7656119366529843 / 2 ^ 53)"
  using fl_eqI [of "- 1" "85 / 10 ^ 2" 7656119366529843] by (simp add: pow2_def)

lemma quality_gate_binary64:
  assumes "det_score det = Finite s" and "box_x (det_box det) = Finite bx"
    and "box_width (det_box det) = Finite bw"
    and "quo binary64 (Finite w) (lit binary64 2) = Finite vc"
  shows "checkFaceQuality_in binary64 (Some (Finite w)) det =
     (confidence_ok binary64 det \<and> centered_ok binary64 (Finite w) det \<and>
      size_ok binary64 (Finite w) det)"
proof -
  let ?center = "f64_add (Finite bx) (f64_div (Finite bw) (fl 2))"
  let ?offset = "f64_abs (f64_sub ?center (Finite vc))"
  let ?tol = "f64_mul (Finite w) (fl (35 / 10 ^ 2))"
  let ?lo = "f64_mul (Finite w) (fl (15 / 10 ^ 2))"
  let ?hi = "f64_mul (Finite w) (fl (85 / 10 ^ 2))"
  have vc: "f64_div (Finite w) (fl 2) = Finite vc"
    using assms(4) by simp
  have "f64_div (Finite bw) (fl 2) \<noteq> NaN"
    by (simp add: fl_2)
  then have "?center \<noteq> NaN"
    by (rule f64_add_Finite_not_NaN)
  then have offset: "?offset \<noteq> NaN"
    by (intro f64_abs_not_NaN f64_sub_Finite_not_NaN)
  have tol: "?tol \<noteq> NaN" and lo: "?lo \<noteq> NaN" and hi: "?hi \<noteq> NaN"
    using fl_035 fl_015 fl_085 by simp_all
  have 1: "(\<not> f64_lt (Finite s) (fl (5 / 10))) = f64_le (fl (5 / 10)) (Finite s)"
    by (rule f64_not_lt) simp_all
  have 2: "(\<not> f64_lt ?tol ?offset) = f64_le ?offset ?tol"
    using tol offset by (rule f64_not_lt)
  have 3: "(\<not> f64_lt (Finite bw) ?lo) = f64_le ?lo (Finite bw)"
    using _ lo by (rule f64_not_lt) simp
  have 4: "(\<not> f64_lt ?hi (Finite bw)) = f64_le (Finite bw) ?hi"
    using hi by (rule f64_not_lt) simp
  show ?thesis
    using 1 2 3 4
    by (auto simp: checkFaceQuality_in_def confidence_ok_def centered_ok_def size_ok_def
        center_offset_def Let_def assms(1-3) vc)
qed

lemma fl_100: "fl 100 = Finite 100"
  using fl_eqI [of 6 100 "100 * 2 ^ 46"] by (simp add: pow2_def)

lemma fl_252: "fl 252 = Finite 252"
  using fl_eqI [of 7 252 "252 * 2 ^ 45"] by (simp add: pow2_def)

lemma fl_360: "fl 360 = Finite 360"
  using fl_eqI [of 8 360 "360 * 2 ^ 44"] by (simp add: pow2_def)

lemma fl_612: "fl 612 = Finite 612"
  using fl_eqI [of 9 612 "612 * 2 ^ 43"] by (simp add: pow2_def)

lemma fl_720_035: "fl (720 * (6305039478318694 / 2 ^ 54)) = Finite (8866461766385663 / 2 ^ 45)"
  using fl_eqI [of 7 "720 * (6305039478318694 / 2 ^ 54)" 8866461766385663]
  by (simp add: pow2_def)

lemma fl_720_015: "fl (720 * (5404319552844595 / 2 ^ 55)) = Finite 108"
  using fl_eqI [of 6 "720 * (5404319552844595 / 2 ^ 55)" 7599824371187712]
  by (simp add: pow2_def)

lemma fl_720_085: "fl (720 * (7656119366529843 / 2 ^ 53)) = Finite 612"
  using fl_eqI [of 9 "720 * (7656119366529843 / 2 ^ 53)" 5383208929591296]
  by (simp add: pow2_def)

lemma frame_720:
  "mul binary64 (Finite 720) (dec binary64 35 2) = Finite (8866461766385663 / 2 ^ 45)"
  "mul binary64 (Finite 720) (dec binary64 15 2) = Finite 108"
  "mul binary64 (Finite 720) (dec binary64 85 2) = Finite 612"
  "quo binary64 (Finite 720) (lit binary64 2) = Finite 360"
  using fl_035 fl_015 fl_085 fl_2 fl_720_035 fl_720_015 fl_720_085 fl_360 by simp_all

lemma edge_offset: "center_offset binary64 (Finite 720) edge_detection = Finite 252"
  using fl_2 fl_100 fl_612 fl_360 fl_252
  by (simp add: center_offset_def edge_detection_def f64_sub_def)

lemma sample_offset: "center_offset binary64 (Finite 720) sample_detection = Finite 0"
  using fl_2 fl_100 fl_360 fl_zero
  by (simp add: center_offset_def sample_detection_def f64_sub_def)

lemma gate_rejects_off_centre:
  "lt A (mul A videoWidth (dec A 35 2)) (center_offset A videoWidth det) \<Longrightarrow>
     \<not> checkFaceQuality_in A (Some videoWidth) det"
  by (simp add: checkFaceQuality_in_def center_offset_def Let_def)

lemma edge_rejected: "\<not> checkFaceQuality (Some (Finite 720)) edge_detection"
  using gate_rejects_off_centre [of binary64 "Finite 720" edge_detection] frame_720(1) edge_offset
  by simp

lemma confidence_ok_binary64:
  "confidence_ok binary64 det = f64_le (Finite (1 / 2)) (det_score det)"
  using fl_half by (simp add: confidence_ok_def)

lemma quality_gate_rounded:
  assumes "det_score det = Finite s" and "box_x (det_box det) = Finite bx"
    and "box_width (det_box det) = Finite bw"
    and "quo binary64 (Finite w) (lit binary64 2) = Finite vc"
  shows "checkFaceQuality (Some (Finite w)) det =
     (1 / 2 \<le> s \<and>
      f64_le (center_offset binary64 (Finite w) det) (fl (w * (6305039478318694 / 2 ^ 54))) \<and>
      f64_le (fl (w * (5404319552844595 / 2 ^ 55))) (Finite bw) \<and>
      f64_le (Finite bw) (fl (w * (7656119366529843 / 2 ^ 53))))"
proof -
  have "confidence_ok binary64 det = (1 / 2 \<le> s)"
    by (simp add: confidence_ok_binary64 assms(1))
  moreover have "centered_ok binary64 (Finite w) det =
      f64_le (center_offset binary64 (Finite w) det) (fl (w * (6305039478318694 / 2 ^ 54)))"
    using fl_035 by (simp add: centered_ok_def)
  moreover have "size_ok binary64 (Finite w) det =
      (f64_le (fl (w * (5404319552844595 / 2 ^ 55))) (Finite bw) \<and>
       f64_le (Finite bw) (fl (w * (7656119366529843 / 2 ^ 53))))"
    using fl_015 fl_085 by (simp add: size_ok_def assms(3))
  ultimately show ?thesis
    using quality_gate_binary64 [OF assms] by simp
qed

lemma sample_checks:
  "confidence_ok binary64 sample_detection"
  "centered_ok binary64 (Finite 720) sample_detection"
  "size_ok binary64 (Finite 720) sample_detection"
proof -
  show "confidence_ok binary64 sample_detection"
    by (simp add: confidence_ok_binary64 sample_detection_def)
  show "centered_ok binary64 (Finite 720) sample_detection"
    using sample_offset frame_720(1) by (simp add: centered_ok_def)
  show "size_ok binary64 (Finite 720) sample_detection"
    using frame_720(2,3) by (simp add: size_ok_def sample_detection_def)
qed

lemma quality_sample: "checkFaceQuality (Some (Finite 720)) sample_detection"
  using quality_gate_binary64 [of sample_detection "3 / 4" 260 200 720 360] frame_720(4)
    sample_checks
  by (simp add: sample_detection_def)

text \<open>
  C5, as stated, fails in the arithmetic the code runs in. In a frame 720 wide, a face
  detected with score 1 in a box at \<open>x = 512\<close> of width 200 has its centre at 612, at the
  distance 252 from the centre 360 of the frame; 252 is 0.35 of 720, and the width 200
  lies between 108 and 612, so the three checks hold. The code rejects the detection:
  \<^verbatim>\<open>720 * 0.35\<close> is \<^verbatim>\<open>251.99999999999997\<close>, which is \<open>252 - 2\<^sup>-\<^sup>4\<^sup>5\<close>, and 252 exceeds it.
\<close>

theorem off_centre_rounding_counterexample:
  "confidence_ok exact edge_detection_exact \<and>
   center_offset exact 720 edge_detection_exact = 35 / 100 * 720 \<and>
   centered_ok exact 720 edge_detection_exact \<and>
   size_ok exact 720 edge_detection_exact \<and>
   center_offset binary64 (Finite 720) edge_detection = Finite 252 \<and>
   mul binary64 (Finite 720) (dec binary64 35 2) = Finite (252 - 1 / 2 ^ 45) \<and>
   \<not> checkFaceQuality (Some (Finite 720)) edge_detection"
proof -
  have "confidence_ok exact edge_detection_exact"
    by (simp add: confidence_ok_def edge_detection_exact_def)
  moreover have "center_offset exact 720 edge_detection_exact = 35 / 100 * 720"
    by (simp add: center_offset_def edge_detection_exact_def)
  moreover have "centered_ok exact 720 edge_detection_exact"
    by (simp add: centered_ok_def center_offset_def edge_detection_exact_def)
  moreover have "size_ok exact 720 edge_detection_exact"
    by (simp add: size_ok_def edge_detection_exact_def)
  moreover have "mul binary64 (Finite 720) (dec binary64 35 2) = Finite (252 - 1 / 2 ^ 45)"
    using frame_720(1) by simp
  ultimately show ?thesis
    using edge_offset edge_rejected by blast
qed

text \<open>
  C5, amended. The gate never passes without a video element, and it rejects every
  detection whose centre offset, as the code computes it, exceeds the tolerance
  \<^verbatim>\<open>videoWidth * 0.35\<close>, as the code computes it, whatever the score. For a detection with
  a finite score, box position and box width, in a frame of finite width whose half
  \<^verbatim>\<open>videoWidth / 2\<close> is finite, the gate passes exactly when the three checks hold in
  double precision: the score is at least 0.5; the computed offset is at most the
  rounded product \<^verbatim>\<open>videoWidth * 0.35\<close>; the width of the box lies between the rounded
  products \<^verbatim>\<open>videoWidth * 0.15\<close> and \<^verbatim>\<open>videoWidth * 0.85\<close>. A rounded product is the
  double nearest to the width times the double nearest to the decimal fraction (which
  is \<open>6305039478318694 / 2\<^sup>5\<^sup>4\<close> for 0.35, \<open>5404319552844595 / 2\<^sup>5\<^sup>5\<close> for 0.15 and
  \<open>7656119366529843 / 2\<^sup>5\<^sup>3\<close> for 0.85), and can differ from the exact fraction of the
  width by a rounding error. Evaluated over the real numbers, the same function passes
  exactly when the three checks hold with the exact fractions.
\<close>

theorem quality_gate_three_checks:
  "\<not> checkFaceQuality None fdet \<and>
   (f64_lt (mul binary64 vw (dec binary64 35 2)) (center_offset binary64 vw fdet) \<longrightarrow>
      \<not> checkFaceQuality (Some vw) fdet) \<and>
   (det_score fdet = Finite s \<and> box_x (det_box fdet) = Finite bx \<and>
    box_width (det_box fdet) = Finite bw \<and>
    quo binary64 (Finite w) (lit binary64 2) = Finite vc \<longrightarrow>
      checkFaceQuality (Some (Finite w)) fdet =
        (confidence_ok binary64 fdet \<and> centered_ok binary64 (Finite w) fdet \<and>
         size_ok binary64 (Finite w) fdet) \<and>
      checkFaceQuality (Some (Finite w)) fdet =
        (1 / 2 \<le> s \<and>
         f64_le (center_offset binary64 (Finite w) fdet)
           (fl (w * (6305039478318694 / 2 ^ 54))) \<and>
         f64_le (fl (w * (5404319552844595 / 2 ^ 55))) (Finite bw) \<and>
         f64_le (Finite bw) (fl (w * (7656119366529843 / 2 ^ 53))))) \<and>
   checkFaceQuality_in exact (Some videoWidth) det =
     (0.5 \<le> det_score det \<and>
      \<bar>(box_x (det_box det) + box_width (det_box det) / 2) - videoWidth / 2\<bar>
        \<le> videoWidth * 0.35 \<and>
      videoWidth * 0.15 \<le> box_width (det_box det) \<and>
      box_width (det_box det) \<le> videoWidth * 0.85)"
proof (intro conjI impI)
  show "\<not> checkFaceQuality None fdet"
    by (simp add: checkFaceQuality_in_def)
  show "\<not> checkFaceQuality (Some vw) fdet"
    if "f64_lt (mul binary64 vw (dec binary64 35 2)) (center_offset binary64 vw fdet)"
    using that gate_rejects_off_centre [of binary64 vw fdet] by simp
  show "checkFaceQuality (Some (Finite w)) fdet =
        (confidence_ok binary64 fdet \<and> centered_ok binary64 (Finite w) fdet \<and>
         size_ok binary64 (Finite w) fdet)"
    if "det_score fdet = Finite s \<and> box_x (det_box fdet) = Finite bx \<and>
        box_width (det_box fdet) = Finite bw \<and>
        quo binary64 (Finite w) (lit binary64 2) = Finite vc"
    using that quality_gate_binary64 [of fdet s bx bw w vc] by blast
  show "checkFaceQuality (Some (Finite w)) fdet =
        (1 / 2 \<le> s \<and>
         f64_le (center_offset binary64 (Finite w) fdet)
           (fl (w * (6305039478318694 / 2 ^ 54))) \<and>
         f64_le (fl (w * (5404319552844595 / 2 ^ 55))) (Finite bw) \<and>
         f64_le (Finite bw) (fl (w * (7656119366529843 / 2 ^ 53))))"
    if "det_score fdet = Finite s \<and> box_x (det_box fdet) = Finite bx \<and>
        box_width (det_box fdet) = Finite bw \<and>
        quo binary64 (Finite w) (lit binary64 2) = Finite vc"
    using that quality_gate_rounded [of fdet s bx bw w vc] by blast
  show "checkFaceQuality_in exact (Some videoWidth) det =
     (0.5 \<le> det_score det \<and>
      \<bar>(box_x (det_box det) + box_width (det_box det) / 2) - videoWidth / 2\<bar>
        \<le> videoWidth * 0.35 \<and>
      videoWidth * 0.15 \<le> box_width (det_box det) \<and>
      box_width (det_box det) \<le> videoWidth * 0.85)"
    by (auto simp: checkFaceQuality_in_def Let_def)
qed

theorem quality_gate_three_checks_witness:
  "f64_lt (mul binary64 (Finite 720) (dec binary64 35 2))
     (center_offset binary64 (Finite 720) edge_detection) \<and>
   det_score edge_detection = Finite 1 \<and>
   \<not> checkFaceQuality (Some (Finite 720)) edge_detection \<and>
   quo binary64 (Finite 720) (lit binary64 2) = Finite 360 \<and>
   confidence_ok binary64 sample_detection \<and>
   centered_ok binary64 (Finite 720) sample_detection \<and>
   size_ok binary64 (Finite 720) sample_detection \<and>
   checkFaceQuality (Some (Finite 720)) sample_detection"
proof -
  have o: "f64_lt (mul binary64 (Finite 720) (dec binary64 35 2))
     (center_offset binary64 (Finite 720) edge_detection)"
    using frame_720(1) edge_offset by simp
  have s: "det_score edge_detection = Finite 1"
    by (simp add: edge_detection_def)
  have f: "det_score sample_detection = Finite (3 / 4) \<and>
           box_x (det_box sample_detection) = Finite 260 \<and>
           box_width (det_box sample_detection) = Finite 200"
    by (simp add: sample_detection_def)
  note t = quality_gate_three_checks [of _ "Finite 720" "3 / 4" 260 200 720 360 720]
  have r: "\<not> checkFaceQuality (Some (Finite 720)) edge_detection"
    using o t [of edge_detection] by blast
  have p: "checkFaceQuality (Some (Finite 720)) sample_detection"
    using f frame_720(4) sample_checks t [of sample_detection] by blast
  from o s r p frame_720(4) sample_checks show ?thesis by blast
qed

section \<open>Face verification loop: the success transition\<close>

lemma body_after_verified:
  "hasVerified s \<Longrightarrow> detection_body cfg inp s = (s', c) \<Longrightarrow> c = None \<and> hasVerified s'"
  by (auto simp: detection_body_def Let_def split: option.splits list.splits if_splits)

lemma event_after_verified:
  "hasVerified s \<Longrightarrow> face_event_step cfg ev s = (s', c) \<Longrightarrow> c = None \<and> hasVerified s'"
  by (cases ev) (auto simp: detection_tick_def dest: body_after_verified split: if_splits)

lemma step_after_verified:
  assumes "hasVerified s"
  shows "\<exists>s'. face_step cfg (s, f, calls) ev = (s', f, calls) \<and> hasVerified s'"
proof (cases "face_event_step cfg ev s")
  case (Pair s' c)
  with event_after_verified [OF assms Pair] show ?thesis
    by (simp add: face_step_def)
qed

lemma run_after_verified:
  "hasVerified s \<Longrightarrow> \<exists>s'. run_face cfg (s, f, calls) evs = (s', f, calls) \<and> hasVerified s'"
proof (induction evs arbitrary: s)
  case Nil
  then show ?case by (simp add: run_face_def)
next
  case (Cons ev evs)
  from step_after_verified [OF Cons.prems]
  obtain s1 where s1: "face_step cfg (s, f, calls) ev = (s1, f, calls)" and "hasVerified s1"
    by blast
  from Cons.IH [OF this(2)] show ?case
    by (simp add: run_face_def s1)
qed

lemma body_call:
  assumes "detection_body cfg inp s = (s', Some r)"
  shows "\<exists>det. detections inp = Some [det] \<and> checkFaceQuality (videoRef inp) det \<and>
           now inp - lastDetectionTime s \<ge> MATCHING_THROTTLE cfg \<and>
           r = (comparator cfg (Some (descriptor det)) (referenceDescriptor s), det_score det) \<and>
           f64_le (MATCH_THRESHOLD cfg) (fst r) \<and> \<not> hasVerified s \<and>
           hasVerified s' \<and> \<not> detectionInterval s' \<and> similarityScore s' = Some (fst r)"
  using assms
  by (auto simp: detection_body_def Let_def split: option.splits list.splits if_splits)

lemma event_call:
  assumes "face_event_step cfg ev s = (s', Some r)"
  shows "\<exists>det. detections (event_input ev) = Some [det] \<and>
           checkFaceQuality (videoRef (event_input ev)) det \<and>
           now (event_input ev) - lastDetectionTime s \<ge> MATCHING_THROTTLE cfg \<and>
           r = (comparator cfg (Some (descriptor det)) (referenceDescriptor s), det_score det) \<and>
           f64_le (MATCH_THRESHOLD cfg) (fst r) \<and> \<not> hasVerified s \<and>
           hasVerified s' \<and> \<not> detectionInterval s' \<and> similarityScore s' = Some (fst r)"
  using assms
  by (cases ev) (auto simp: detection_tick_def dest!: body_call split: if_splits)

lemma step_calls:
  "face_step cfg (s, f, calls) ev = (s', f', calls') \<Longrightarrow>
     (calls' = calls \<and> f' = f) \<or>
     (\<exists>r. face_event_step cfg ev s = (s', Some r) \<and> calls' = calls @ [r] \<and>
          f' = handleFaceVerified r (iso_time (event_input ev)) f)"
  by (cases "face_event_step cfg ev s") (auto simp: face_step_def split: option.splits)

lemma run_at_most_one_call:
  "run_face cfg (s, f, calls) evs = (s', f', calls') \<Longrightarrow> length calls' \<le> length calls + 1"
proof (induction evs arbitrary: s f calls)
  case Nil
  then show ?case by (simp add: run_face_def)
next
  case (Cons ev evs)
  obtain s1 f1 calls1 where st: "face_step cfg (s, f, calls) ev = (s1, f1, calls1)"
    by (cases "face_step cfg (s, f, calls) ev") auto
  with Cons.prems have run: "run_face cfg (s1, f1, calls1) evs = (s', f', calls')"
    by (simp add: run_face_def)
  from step_calls [OF st] show ?case
  proof
    assume "calls1 = calls \<and> f1 = f"
    with Cons.IH [OF run] show ?thesis by simp
  next
    assume "\<exists>r. face_event_step cfg ev s = (s1, Some r) \<and> calls1 = calls @ [r] \<and>
          f1 = handleFaceVerified r (iso_time (event_input ev)) f"
    then obtain r where e: "face_event_step cfg ev s = (s1, Some r)" and c: "calls1 = calls @ [r]"
      by blast
    from event_call [OF e] have "hasVerified s1" by blast
    from run_after_verified [OF this, of cfg f1 calls1 evs] run have "calls' = calls1" by auto
    with c show ?thesis by simp
  qed
qed

lemma body_makes_call:
  assumes "\<not> hasVerified s" and "detections inp = Some [det]"
    and "checkFaceQuality (videoRef inp) det"
    and "MATCHING_THROTTLE cfg \<le> now inp - lastDetectionTime s"
    and "f64_le (MATCH_THRESHOLD cfg)
           (comparator cfg (Some (descriptor det)) (referenceDescriptor s))"
  shows "\<exists>s'. detection_body cfg inp s =
           (s', Some (comparator cfg (Some (descriptor det)) (referenceDescriptor s),
                      det_score det)) \<and>
         hasVerified s' \<and> \<not> detectionInterval s'"
  using assms by (simp add: detection_body_def Let_def)

lemma event_makes_call:
  assumes "\<not> hasVerified s" and "detections inp = Some [det]"
    and "checkFaceQuality (videoRef inp) det"
    and "MATCHING_THROTTLE cfg \<le> now inp - lastDetectionTime s"
    and "f64_le (MATCH_THRESHOLD cfg)
           (comparator cfg (Some (descriptor det)) (referenceDescriptor s))"
    and "detectionInterval s \<or> ev = Resume inp" and "event_input ev = inp"
  shows "\<exists>s'. face_event_step cfg ev s =
           (s', Some (comparator cfg (Some (descriptor det)) (referenceDescriptor s),
                      det_score det)) \<and>
         hasVerified s' \<and> \<not> detectionInterval s'"
proof (cases ev)
  case (Tick i)
  with assms(6,7) have i: "i = inp" and d: "detectionInterval s" by simp_all
  from assms(3) have v: "videoRef inp \<noteq> None"
    by (cases "videoRef inp") (simp_all add: checkFaceQuality_in_def)
  from body_makes_call [OF assms(1-5)] Tick i d v assms(1) show ?thesis
    by (simp add: detection_tick_def)
next
  case (Resume i)
  with assms(7) have "i = inp" by simp
  with body_makes_call [OF assms(1-5)] Resume show ?thesis by simp
qed

lemma sample_score:
  "comparator cosine_config (Some (descriptor sample_detection))
     (referenceDescriptor sample_loop) = Finite (1 / 2)"
  using fl_half
  by (simp add: cosine_config_def sample_detection_def sample_loop_def startFaceDetection_def
      cosineSimilarity_in_def cosine_exit_def fl_zero fl_1 fl_2 f64_eq_def Let_def)

lemma sample_threshold: "MATCH_THRESHOLD cosine_config = Finite (1 / 2)"
  using fl_half by (simp add: cosine_config_def)

text \<open>
  C3. An event that runs the body of the callback (a firing of the running timer, or a
  callback resumed from its \<^verbatim>\<open>await\<close>) in a state not yet verified, on a single detection
  that passes the quality gate with the throttle interval elapsed and a comparator score
  \<^verbatim>\<open>>=\<close> the threshold, calls \<^verbatim>\<open>onVerified\<close> with that score and the detector's
  confidence, sets \<^verbatim>\<open>hasVerifiedRef\<close> and clears the timer; the controller records the
  pair. Whatever events follow, whatever score they would reach, the list of calls and
  the controller's state stay as that step left them: the call is made exactly once.
  Conversely a step that makes the call is such a step, and over any run from a state
  with no call made at most one call is made.
\<close>

theorem success_transition_idempotent:
  "(\<not> hasVerified s \<and> (detectionInterval s \<or> ev = Resume inp) \<and> event_input ev = inp \<and>
    detections inp = Some [det] \<and> checkFaceQuality (videoRef inp) det \<and>
    MATCHING_THROTTLE cfg \<le> now inp - lastDetectionTime s \<and>
    sim = comparator cfg (Some (descriptor det)) (referenceDescriptor s) \<and>
    f64_le (MATCH_THRESHOLD cfg) sim \<longrightarrow>
      (\<exists>s2. face_step cfg (s, f, calls) ev =
               (s2, handleFaceVerified (sim, det_score det) (iso_time inp) f,
                calls @ [(sim, det_score det)]) \<and>
             hasVerified s2 \<and> \<not> detectionInterval s2) \<and>
      (\<forall>evs. \<exists>s'. run_face cfg (s, f, calls) (ev # evs) =
               (s', handleFaceVerified (sim, det_score det) (iso_time inp) f,
                calls @ [(sim, det_score det)]))) \<and>
   (face_step cfg (s, f, calls) ev = (s1, f1, calls1) \<and> calls1 \<noteq> calls \<longrightarrow>
      (\<exists>det sim.
         detections (event_input ev) = Some [det] \<and>
         checkFaceQuality (videoRef (event_input ev)) det \<and>
         MATCHING_THROTTLE cfg \<le> now (event_input ev) - lastDetectionTime s \<and>
         sim = comparator cfg (Some (descriptor det)) (referenceDescriptor s) \<and>
         f64_le (MATCH_THRESHOLD cfg) sim \<and> \<not> hasVerified s \<and>
         calls1 = calls @ [(sim, det_score det)] \<and>
         f1 = handleFaceVerified (sim, det_score det) (iso_time (event_input ev)) f \<and>
         hasVerified s1 \<and> \<not> detectionInterval s1 \<and>
         (\<forall>evs. \<exists>s'. run_face cfg (s1, f1, calls1) evs = (s', f1, calls1)))) \<and>
   (\<forall>evs s' f' calls'.
      run_face cfg (s, f, []) evs = (s', f', calls') \<longrightarrow> length calls' \<le> 1)"
proof (intro conjI impI)
  assume h: "\<not> hasVerified s \<and> (detectionInterval s \<or> ev = Resume inp) \<and>
    event_input ev = inp \<and> detections inp = Some [det] \<and>
    checkFaceQuality (videoRef inp) det \<and>
    MATCHING_THROTTLE cfg \<le> now inp - lastDetectionTime s \<and>
    sim = comparator cfg (Some (descriptor det)) (referenceDescriptor s) \<and>
    f64_le (MATCH_THRESHOLD cfg) sim"
  then obtain s2 where e: "face_event_step cfg ev s = (s2, Some (sim, det_score det))"
    and v: "hasVerified s2" and i: "\<not> detectionInterval s2"
    using event_makes_call [of s inp det cfg ev] by blast
  from e h have st: "face_step cfg (s, f, calls) ev =
      (s2, handleFaceVerified (sim, det_score det) (iso_time inp) f,
       calls @ [(sim, det_score det)])"
    by (simp add: face_step_def)
  with v i show "\<exists>s2. face_step cfg (s, f, calls) ev =
               (s2, handleFaceVerified (sim, det_score det) (iso_time inp) f,
                calls @ [(sim, det_score det)]) \<and>
             hasVerified s2 \<and> \<not> detectionInterval s2"
    by blast
  show "\<forall>evs. \<exists>s'. run_face cfg (s, f, calls) (ev # evs) =
               (s', handleFaceVerified (sim, det_score det) (iso_time inp) f,
                calls @ [(sim, det_score det)])"
  proof
    fix evs
    from run_after_verified [OF v, of cfg
        "handleFaceVerified (sim, det_score det) (iso_time inp) f"
        "calls @ [(sim, det_score det)]" evs]
    show "\<exists>s'. run_face cfg (s, f, calls) (ev # evs) =
               (s', handleFaceVerified (sim, det_score det) (iso_time inp) f,
                calls @ [(sim, det_score det)])"
      by (auto simp: run_face_def st)
  qed
next
  assume a: "face_step cfg (s, f, calls) ev = (s1, f1, calls1) \<and> calls1 \<noteq> calls"
  with step_calls [of cfg s f calls ev s1 f1 calls1]
  obtain r where e: "face_event_step cfg ev s = (s1, Some r)" and c: "calls1 = calls @ [r]"
    and f1: "f1 = handleFaceVerified r (iso_time (event_input ev)) f"
    by blast
  from event_call [OF e] obtain det where d: "detections (event_input ev) = Some [det]"
    and q: "checkFaceQuality (videoRef (event_input ev)) det"
    and th: "MATCHING_THROTTLE cfg \<le> now (event_input ev) - lastDetectionTime s"
    and r: "r = (comparator cfg (Some (descriptor det)) (referenceDescriptor s), det_score det)"
    and t: "f64_le (MATCH_THRESHOLD cfg) (fst r)" and nv: "\<not> hasVerified s"
    and v: "hasVerified s1" and i: "\<not> detectionInterval s1"
    by blast
  have later: "\<forall>evs. \<exists>s'. run_face cfg (s1, f1, calls1) evs = (s', f1, calls1)"
    using run_after_verified [OF v] by blast
  from d q th r t nv c f1 v i later
  show "\<exists>det sim.
         detections (event_input ev) = Some [det] \<and>
         checkFaceQuality (videoRef (event_input ev)) det \<and>
         MATCHING_THROTTLE cfg \<le> now (event_input ev) - lastDetectionTime s \<and>
         sim = comparator cfg (Some (descriptor det)) (referenceDescriptor s) \<and>
         f64_le (MATCH_THRESHOLD cfg) sim \<and> \<not> hasVerified s \<and>
         calls1 = calls @ [(sim, det_score det)] \<and>
         f1 = handleFaceVerified (sim, det_score det) (iso_time (event_input ev)) f \<and>
         hasVerified s1 \<and> \<not> detectionInterval s1 \<and>
         (\<forall>evs. \<exists>s'. run_face cfg (s1, f1, calls1) evs = (s', f1, calls1))"
    by (intro exI [of _ det] exI [of _ "fst r"]) simp
next
  show "\<forall>evs s' f' calls'.
      run_face cfg (s, f, []) evs = (s', f', calls') \<longrightarrow> length calls' \<le> 1"
    using run_at_most_one_call [of cfg s f "[]"] by fastforce
qed

theorem success_transition_idempotent_witness:
  "comparator cosine_config (Some (descriptor sample_detection))
     (referenceDescriptor sample_loop) = Finite (1 / 2) \<and>
   MATCH_THRESHOLD cosine_config = Finite (1 / 2) \<and>
   checkFaceQuality (videoRef (sample_input 5000)) sample_detection \<and>
   (\<exists>s2 s'.
      face_step cosine_config (sample_loop, sample_flow, []) (Tick (sample_input 5000)) =
        (s2, handleFaceVerified (Finite (1 / 2), Finite (3 / 4)) ''2024-01-01T00:00:00.000Z''
               sample_flow,
         [(Finite (1 / 2), Finite (3 / 4))]) \<and>
      run_face cosine_config
        (s2, handleFaceVerified (Finite (1 / 2), Finite (3 / 4)) ''2024-01-01T00:00:00.000Z''
               sample_flow,
         [(Finite (1 / 2), Finite (3 / 4))])
        [Tick (sample_input 10000), Resume (sample_input 15000)] =
        (s', handleFaceVerified (Finite (1 / 2), Finite (3 / 4)) ''2024-01-01T00:00:00.000Z''
               sample_flow,
         [(Finite (1 / 2), Finite (3 / 4))])) \<and>
   (\<exists>s'. run_face cosine_config (sample_loop, sample_flow, [])
            [Tick (sample_input 5000), Tick (sample_input 10000), Resume (sample_input 15000)] =
          (s', handleFaceVerified (Finite (1 / 2), Finite (3 / 4)) ''2024-01-01T00:00:00.000Z''
                 sample_flow,
           [(Finite (1 / 2), Finite (3 / 4))]))"
proof -
  let ?F = "handleFaceVerified (Finite (1 / 2), det_score sample_detection)
              (iso_time (sample_input 5000)) sample_flow"
  let ?C = "[(Finite (1 / 2), det_score sample_detection)]"
  have q: "checkFaceQuality (videoRef (sample_input 5000)) sample_detection"
    using quality_sample by (simp add: sample_input_def)
  have h: "\<not> hasVerified sample_loop \<and>
      (detectionInterval sample_loop \<or> Tick (sample_input 5000) = Resume (sample_input 5000)) \<and>
      event_input (Tick (sample_input 5000)) = sample_input 5000 \<and>
      detections (sample_input 5000) = Some [sample_detection] \<and>
      checkFaceQuality (videoRef (sample_input 5000)) sample_detection \<and>
      MATCHING_THROTTLE cosine_config \<le> now (sample_input 5000) - lastDetectionTime sample_loop \<and>
      Finite (1 / 2) = comparator cosine_config (Some (descriptor sample_detection))
                         (referenceDescriptor sample_loop) \<and>
      f64_le (MATCH_THRESHOLD cosine_config) (Finite (1 / 2))"
    using q sample_score sample_threshold
    by (simp add: sample_loop_def startFaceDetection_def sample_input_def cosine_config_def)
  note t = success_transition_idempotent [where s = sample_loop
      and ev = "Tick (sample_input 5000)" and inp = "sample_input 5000"
      and det = sample_detection and cfg = cosine_config and sim = "Finite (1 / 2)"
      and f = sample_flow and calls = "[]"]
  note c1 = t [THEN conjunct1, THEN mp, OF h]
  from c1 [THEN conjunct1] obtain s2 where
    st: "face_step cosine_config (sample_loop, sample_flow, []) (Tick (sample_input 5000)) =
           (s2, ?F, [] @ ?C)"
    by blast
  have ne: "[] @ ?C \<noteq> []" by simp
  from t [THEN conjunct2, THEN conjunct1, THEN mp, OF conjI [OF st ne]]
  have "\<forall>evs. \<exists>s'. run_face cosine_config (s2, ?F, [] @ ?C) evs = (s', ?F, [] @ ?C)"
    by blast
  then obtain s' where later:
    "run_face cosine_config (s2, ?F, [] @ ?C)
       [Tick (sample_input 10000), Resume (sample_input 15000)] = (s', ?F, [] @ ?C)"
    by blast
  from c1 [THEN conjunct2] obtain s'' where run:
    "run_face cosine_config (sample_loop, sample_flow, [])
       (Tick (sample_input 5000) # [Tick (sample_input 10000), Resume (sample_input 15000)]) =
     (s'', ?F, [] @ ?C)"
    by blast
  have v: "det_score sample_detection = Finite (3 / 4)"
    "iso_time (sample_input 5000) = ''2024-01-01T00:00:00.000Z''"
    by (simp_all add: sample_detection_def sample_input_def)
  from st later have "\<exists>s2 s'.
      face_step cosine_config (sample_loop, sample_flow, []) (Tick (sample_input 5000)) =
        (s2, ?F, ?C) \<and>
      run_face cosine_config (s2, ?F, ?C)
        [Tick (sample_input 10000), Resume (sample_input 15000)] = (s', ?F, ?C)"
    by (intro exI [of _ s2] exI [of _ s']) simp
  moreover from run have "\<exists>s'. run_face cosine_config (sample_loop, sample_flow, [])
            [Tick (sample_input 5000), Tick (sample_input 10000), Resume (sample_input 15000)] =
          (s', ?F, ?C)"
    by (intro exI [of _ s'']) simp
  ultimately show ?thesis
    using q sample_score sample_threshold unfolding v by (intro conjI)
qed


section \<open>The distance-based score in double precision\<close>

lemma pow2_pos: "0 < pow2 e"
  by (simp add: pow2_powr)

lemma round_half_even_nonneg: "0 \<le> t \<Longrightarrow> 0 \<le> round_half_even t"
proof -
  assume "0 \<le> t"
  then have "0 \<le> \<lfloor>t\<rfloor>" by simp
  then show ?thesis by (simp add: round_half_even_def Let_def)
qed

lemma round_half_even_le_int:
  assumes "t \<le> of_int N"
  shows "round_half_even t \<le> N"
proof (cases "\<lfloor>t\<rfloor> = N")
  case True
  then have "of_int N \<le> t" using of_int_floor_le [of t] by simp
  with assms have "t = of_int N" by simp
  then show ?thesis by (simp add: round_half_even_def)
next
  case False
  moreover have "\<lfloor>t\<rfloor> \<le> N" using assms by (simp add: floor_le_iff)
  ultimately have "\<lfloor>t\<rfloor> + 1 \<le> N" by simp
  then show ?thesis by (simp add: round_half_even_def Let_def)
qed

lemma fl_nonneg:
  assumes "0 \<le> x"
  shows "fl x = PInf \<or> (\<exists>r\<ge>0. fl x = Finite r)"
proof (cases "x = 0")
  case True
  then show ?thesis by (simp add: fl_zero)
next
  case False
  with assms have x: "0 < x" by simp
  let ?q = "pow2 (max (binade x) (- 1022) - 52)"
  have "0 \<le> \<bar>x\<bar> / ?q" using pow2_pos [of "max (binade x) (- 1022) - 52"] by simp
  then have "0 \<le> of_int (round_half_even (\<bar>x\<bar> / ?q)) * ?q"
    using round_half_even_nonneg pow2_pos [of "max (binade x) (- 1022) - 52"] by simp
  with x show ?thesis
    by (simp add: fl_def Let_def)
qed

lemma binade_le_zero:
  assumes "0 < x" and "x \<le> 1"
  shows "binade x \<le> 0"
proof -
  have "log 2 \<bar>x\<bar> \<le> 0" using assms by simp
  then show ?thesis unfolding binade_def by (simp add: floor_le_iff)
qed

lemma pow2_add: "pow2 (a + b) = pow2 a * pow2 b"
  by (simp add: pow2_powr powr_add)

lemma pow2_nat: "0 \<le> e \<Longrightarrow> pow2 e = of_int (2 ^ nat e)"
  by (simp add: pow2_def)

lemma fl_le_one:
  assumes "x \<le> 1"
  shows "fl x = NInf \<or> (\<exists>r\<le>1. fl x = Finite r)"
proof -
  let ?e = "max (binade x) (- 1022)"
  let ?q = "pow2 (?e - 52)"
  let ?m = "round_half_even (\<bar>x\<bar> / ?q)"
  have q: "0 < ?q" by (rule pow2_pos)
  consider "x = 0" | "x < 0" | "0 < x" by linarith
  then show ?thesis
  proof cases
    case 1
    then show ?thesis by (simp add: fl_zero)
  next
    case 2
    have "0 \<le> \<bar>x\<bar> / ?q" using q by simp
    then have "0 \<le> of_int ?m * ?q"
      using round_half_even_nonneg q by simp
    then have "- (of_int ?m * ?q) \<le> 1" by linarith
    with 2 show ?thesis by (simp add: fl_def Let_def)
  next
    case 3
    with assms have e: "?e \<le> 0" using binade_le_zero [of x] by simp
    have one: "pow2 (52 - ?e) * ?q = 1"
      using pow2_add [of "52 - ?e" "?e - 52"] by (simp add: pow2_def)
    have N: "pow2 (52 - ?e) = of_int (2 ^ nat (52 - ?e))"
      using e by (intro pow2_nat) simp
    have "\<bar>x\<bar> / ?q \<le> pow2 (52 - ?e)"
    proof -
      have "\<bar>x\<bar> \<le> pow2 (52 - ?e) * ?q" using 3 assms one by simp
      then show ?thesis using q by (simp add: pos_divide_le_eq)
    qed
    then have "?m \<le> 2 ^ nat (52 - ?e)"
      unfolding N by (rule round_half_even_le_int)
    then have "of_int ?m \<le> pow2 (52 - ?e)"
      unfolding N by (simp only: of_int_le_iff)
    then have "of_int ?m * ?q \<le> pow2 (52 - ?e) * ?q"
      using q by (simp add: mult_right_mono)
    then have y: "of_int ?m * ?q \<le> 1" using one by simp
    have "(1::real) < pow2 1024" by (simp add: pow2_def)
    with y have "\<not> pow2 1024 \<le> of_int ?m * ?q" by linarith
    with 3 y show ?thesis by (simp add: fl_def Let_def)
  qed
qed

lemma fl_nonneg_or_inf: "0 \<le> x \<Longrightarrow> nonneg_or_inf (fl x)"
  using fl_nonneg [of x] by (simp add: nonneg_or_inf_def)

lemma f64_add_nonneg:
  assumes "nonneg_or_inf u" and "nonneg_or_inf v"
  shows "nonneg_or_inf (f64_add u v)"
proof (cases u)
  case (Finite a)
  note u = this
  show ?thesis
  proof (cases v)
    case (Finite b)
    with u assms have "0 \<le> a + b" by (simp add: nonneg_or_inf_def)
    with u Finite show ?thesis by (simp add: fl_nonneg_or_inf)
  qed (use assms u in \<open>simp_all add: nonneg_or_inf_def\<close>)
next
  case PInf
  with assms(2) show ?thesis by (cases v) (simp_all add: nonneg_or_inf_def)
qed (use assms in \<open>simp_all add: nonneg_or_inf_def\<close>)

lemma f64_sqrt_nonneg:
  assumes "nonneg_or_inf u"
  shows "nonneg_or_inf (f64_sqrt u)"
proof (cases u)
  case (Finite a)
  with assms have "0 \<le> a" by (simp add: nonneg_or_inf_def)
  with Finite show ?thesis by (simp add: fl_nonneg_or_inf)
qed (use assms in \<open>simp_all add: nonneg_or_inf_def\<close>)

lemma distance_loop_nonneg_binary64:
  assumes "nonneg_or_inf acc" and "\<forall>x \<in> set xs. \<exists>r. x = Finite r"
    and "\<forall>y \<in> set ys. \<exists>r. y = Finite r"
  shows "nonneg_or_inf (distance_loop binary64 acc xs ys)"
  using assms
proof (induction xs arbitrary: ys acc)
  case Nil
  then show ?case by simp
next
  case (Cons x xs)
  show ?case
  proof (cases ys)
    case Nil
    with Cons.prems show ?thesis by simp
  next
    case (Cons y ys')
    with Cons.prems obtain a b where x: "x = Finite a" and y: "y = Finite b" by auto
    have sq: "nonneg_or_inf (f64_mul (f64_sub x y) (f64_sub x y))"
    proof (cases "fl (a - b)")
      case (Finite d)
      with fl_nonneg_or_inf [of "d * d"] x y show ?thesis
        by (simp add: f64_sub_def)
    qed (simp_all add: x y nonneg_or_inf_def f64_sub_def signed_inf_def)
    have "nonneg_or_inf (f64_add acc (f64_mul (f64_sub x y) (f64_sub x y)))"
      using Cons.prems(1) sq by (rule f64_add_nonneg)
    with Cons Cons.prems Cons.IH [of _ ys'] show ?thesis
      by (simp add: Let_def)
  qed
qed

lemma face_bounds_binary64:
  assumes "\<forall>x \<in> set xs. \<exists>r. x = Finite r" and "\<forall>y \<in> set ys. \<exists>r. y = Finite r"
  shows "f64_le (Finite 0) (faceSimilarity_in binary64 (Some xs) (Some ys)) \<and>
         f64_le (faceSimilarity_in binary64 (Some xs) (Some ys)) (Finite 1)"
proof (cases "length xs = length ys")
  case False
  then show ?thesis by (simp add: faceSimilarity_in_def fl_zero)
next
  case True
  let ?S = "distance_loop binary64 (Finite 0) xs ys"
  have "nonneg_or_inf ?S"
    using assms by (intro distance_loop_nonneg_binary64) (simp_all add: nonneg_or_inf_def)
  then have d: "nonneg_or_inf (f64_sqrt ?S)"
    by (rule f64_sqrt_nonneg)
  have "f64_sub (Finite 1) (f64_sqrt ?S) = NInf \<or>
        (\<exists>r\<le>1. f64_sub (Finite 1) (f64_sqrt ?S) = Finite r)"
  proof (cases "f64_sqrt ?S")
    case (Finite t)
    with d have "1 - t \<le> 1" by (simp add: nonneg_or_inf_def)
    from fl_le_one [OF this] Finite show ?thesis by (simp add: f64_sub_def)
  qed (use d in \<open>simp_all add: nonneg_or_inf_def f64_sub_def\<close>)
  then have "f64_le (Finite 0) (f64_max (Finite 0) (f64_sub (Finite 1) (f64_sqrt ?S))) \<and>
             f64_le (f64_max (Finite 0) (f64_sub (Finite 1) (f64_sqrt ?S))) (Finite 1)"
    by (auto simp: f64_max_def)
  with True show ?thesis
    by (simp add: faceSimilarity_in_def fl_zero fl_1 Let_def)
qed

section \<open>Comparator claims\<close>

text \<open>
  C6, as stated, fails in the arithmetic the code runs in: the cosine-based score of
  \<^verbatim>\<open>[1, 1, 1]\<close> against \<^verbatim>\<open>[-1, -1, -1]\<close> is \<open>-2\<^sup>-\<^sup>5\<^sup>3\<close>
  (\<^verbatim>\<open>-1.1102230246251565e-16\<close>), below 0. The sums are \<open>-3\<close>, 3 and 3; the square root of
  3 rounds to \<^verbatim>\<open>1.7320508075688772\<close>, whose square rounds to \<^verbatim>\<open>2.9999999999999996\<close>; the
  quotient is \<^verbatim>\<open>-1.0000000000000002\<close>.
\<close>

theorem cosine_below_zero_counterexample:
  "cosineSimilarity_in binary64 (Some [Finite 1, Finite 1, Finite 1])
     (Some [Finite (- 1), Finite (- 1), Finite (- 1)]) = Finite (- (1 / 2 ^ 53)) \<and>
   \<not> f64_le (Finite 0) (Finite (- (1 / 2 ^ 53)))"
  using cosine_opposite by simp

text \<open>
  C6, amended. Both scoring policies are symmetric, in exact and in double-precision
  arithmetic. The distance-based policy returns a result in the closed interval from 0 to
  1 through \<open>max 0 (1 - distance)\<close>, in exact arithmetic and, for descriptors of finite
  components, in double precision. The cosine-based policy returns a result in that
  interval through \<open>(cos + 1) / 2\<close> in exact arithmetic.
\<close>

theorem comparators_symmetric_and_bounded:
  "cosineSimilarity a b = cosineSimilarity b a \<and>
   faceSimilarity a b = faceSimilarity b a \<and>
   cosineSimilarity_in binary64 u v = cosineSimilarity_in binary64 v u \<and>
   faceSimilarity_in binary64 u v = faceSimilarity_in binary64 v u \<and>
   0 \<le> cosineSimilarity a b \<and> cosineSimilarity a b \<le> 1 \<and>
   0 \<le> faceSimilarity a b \<and> faceSimilarity a b \<le> 1 \<and>
   ((\<forall>x \<in> set fxs. \<exists>r. x = Finite r) \<and> (\<forall>y \<in> set fys. \<exists>r. y = Finite r) \<longrightarrow>
      f64_le (Finite 0) (faceSimilarity_in binary64 (Some fxs) (Some fys)) \<and>
      f64_le (faceSimilarity_in binary64 (Some fxs) (Some fys)) (Finite 1))"
  using cosine_symmetric_in [of exact a b, OF exact_mul_commute] face_symmetric [of a b]
    cosine_symmetric_binary64 [of u v] face_symmetric_binary64 [of u v]
    cosine_bounds [of a b] face_bounds [of a b] face_bounds_binary64 [of fxs fys]
  by blast

theorem comparators_symmetric_and_bounded_witness:
  "cosineSimilarity (Some [1, 0]) (Some [0, 1]) = 1 / 2 \<and>
   faceSimilarity (Some [1, 0]) (Some [1, 0]) = 1 \<and>
   f64_le (Finite 0) (faceSimilarity_in binary64 (Some [Finite 1]) (Some [Finite 0])) \<and>
   f64_le (faceSimilarity_in binary64 (Some [Finite 1]) (Some [Finite 0])) (Finite 1)"
proof -
  have c: "cosineSimilarity (Some [1, 0]) (Some [0, 1]) = 1 / 2"
    by (simp add: cosineSimilarity_in_def cosine_exit_def)
  have f: "faceSimilarity (Some [1, 0]) (Some [1, 0]) = 1"
    by (simp add: faceSimilarity_in_def)
  from c f comparators_symmetric_and_bounded [of "Some [1, 0]" "Some [0, 1]" None None
      "[Finite 1]" "[Finite 0]"]
  show ?thesis by simp
qed

lemma fl_sq_tiny: "fl (1 / 2 ^ 600 * (1 / 2 ^ 600)) = Finite 0"
proof -
  have b: "binade (1 / 2 ^ 600 * (1 / 2 ^ 600)) = - 1200"
    using binade_eqI [of "- 1200" "1 / 2 ^ 600 * (1 / 2 ^ 600)"] by (simp add: pow2_def)
  have r: "round_half_even (\<bar>1 / 2 ^ 600 * (1 / 2 ^ 600)\<bar> / pow2 (- 1074)) = 0"
    using round_half_even_eqI [of 0 "\<bar>1 / 2 ^ 600 * (1 / 2 ^ 600)\<bar> / pow2 (- 1074)"]
    by (simp add: pow2_def)
  have p: "0 < pow2 1024"
    by (simp add: pow2_def)
  from b r p show ?thesis
    by (simp add: fl_def Let_def)
qed

lemma fl_sq_huge: "fl (2 ^ 600 * 2 ^ 600) = PInf"
proof -
  have b: "binade (2 ^ 600 * 2 ^ 600) = 1200"
    using binade_eqI [of 1200 "2 ^ 600 * 2 ^ 600"] by (simp add: pow2_def)
  have r: "round_half_even (\<bar>2 ^ 600 * 2 ^ 600\<bar> / pow2 1148) = 2 ^ 52"
    using round_half_even_eqI [of "2 ^ 52" "\<bar>2 ^ 600 * 2 ^ 600\<bar> / pow2 1148"]
    by (simp add: pow2_def)
  from b r show ?thesis
    by (simp add: fl_def Let_def pow2_def)
qed

lemma fl_pow_600: "fl (2 ^ 600) = Finite (2 ^ 600)"
  using fl_eqI [of 600 "2 ^ 600" "2 ^ 52"] by (simp add: pow2_def)

lemma fl_pow_m600: "fl (1 / 2 ^ 600) = Finite (1 / 2 ^ 600)"
  using fl_eqI [of "- 600" "1 / 2 ^ 600" "2 ^ 52"] by (simp add: pow2_def)

lemma cosine_tiny:
  "cosineSimilarity_in binary64 (Some [Finite (1 / 2 ^ 600)]) (Some [Finite (1 / 2 ^ 600)]) =
     Finite 0"
  using fl_sq_tiny
  by (simp add: cosineSimilarity_in_def cosine_exit_def fl_zero f64_eq_def Let_def)

lemma exit_huge:
  "cosine_exit binary64 (Some [Finite 0]) (Some [Finite (2 ^ 600)]) = Quotient (Finite 0) NaN"
  using fl_sq_huge
  by (simp add: cosine_exit_def fl_zero f64_eq_def signed_inf_def Let_def)

lemma cosine_huge:
  "cosineSimilarity_in binary64 (Some [Finite 0]) (Some [Finite (2 ^ 600)]) = NaN"
  using exit_huge by (simp add: cosineSimilarity_in_def)

text \<open>
  C7, as stated, fails in the arithmetic the code runs in: the cosine-based score of
  \<^verbatim>\<open>[1, 1]\<close> against itself is \<open>1 - 2\<^sup>-\<^sup>5\<^sup>3\<close> (\<^verbatim>\<open>0.9999999999999999\<close>). The square root of
  2 rounds to \<^verbatim>\<open>1.4142135623730951\<close>, whose square rounds to \<^verbatim>\<open>2.0000000000000004\<close>.
  The score need not be near 1 either: the square of the double \<open>2\<^sup>-\<^sup>6\<^sup>0\<^sup>0\<close> underflows to
  0, so the score of \<^verbatim>\<open>[2 ** -600]\<close> against itself leaves through the guard and is 0.
\<close>

theorem self_similarity_rounded_counterexample:
  "cosineSimilarity_in binary64 (Some [Finite 1, Finite 1]) (Some [Finite 1, Finite 1]) =
     Finite (9007199254740991 / 2 ^ 53) \<and>
   \<not> f64_eq (Finite (9007199254740991 / 2 ^ 53)) (Finite 1) \<and>
   fl (1 / 2 ^ 600) = Finite (1 / 2 ^ 600) \<and>
   cosineSimilarity_in binary64 (Some [Finite (1 / 2 ^ 600)]) (Some [Finite (1 / 2 ^ 600)]) =
     Finite 0"
  using cosine_ones cosine_tiny fl_pow_m600 by (simp add: f64_eq_def)

text \<open>
  C7, amended. Evaluated in exact arithmetic, over the real numbers, the cosine-based
  score of a descriptor with a non-zero component against itself is 1.
\<close>

theorem self_similarity_exact:
  assumes "\<exists>x \<in> set xs. x \<noteq> 0"
  shows "cosineSimilarity (Some xs) (Some xs) = 1"
  using assms by (rule cosine_self)

theorem self_similarity_exact_witness:
  "cosineSimilarity (Some [3, 4]) (Some [3, 4]) = 1"
  using self_similarity_exact [of "[3, 4]"] by simp

lemma zero_vector_guard_binary64:
  assumes "length us = length vs" and "\<forall>u \<in> set us. u = Finite 0"
    and "\<forall>v \<in> set vs. \<exists>r. v = Finite r"
    and "f64_sqrt (sum_squares binary64 (Finite 0) vs) = Finite n"
  shows "cosine_exit binary64 (Some us) (Some vs) = ZeroDenominator"
    and "cosine_exit binary64 (Some vs) (Some us) = ZeroDenominator"
proof -
  show z: "cosine_exit binary64 (Some us) (Some vs) = ZeroDenominator"
    using assms by (rule cosine_zero_left_binary64)
  show "cosine_exit binary64 (Some vs) (Some us) = ZeroDenominator"
    using z cosine_exit_swap [of binary64 "Some us" "Some vs", OF binary64_mul_commute]
    by simp
qed

text \<open>
  C8, as stated, fails in the arithmetic the code runs in: a zero vector does not always
  take the guard, and the result is not always a number. The square of the double
  \<open>2\<^sup>6\<^sup>0\<^sup>0\<close> (about \<^verbatim>\<open>4.15e180\<close>) overflows to \<^verbatim>\<open>Infinity\<close>, so for \<^verbatim>\<open>[0]\<close> against
  \<^verbatim>\<open>[2 ** 600]\<close> the denominator is \<^verbatim>\<open>0 * Infinity\<close>, which is NaN and not \<^verbatim>\<open>=== 0\<close>; the
  division \<^verbatim>\<open>0 / NaN\<close> is performed and the function returns NaN.
\<close>

theorem overflowed_norm_counterexample:
  "fl (2 ^ 600) = Finite (2 ^ 600) \<and>
   cosine_exit binary64 (Some [Finite 0]) (Some [Finite (2 ^ 600)]) =
     Quotient (Finite 0) NaN \<and>
   cosineSimilarity_in binary64 (Some [Finite 0]) (Some [Finite (2 ^ 600)]) = NaN"
  using fl_pow_600 exit_huge cosine_huge by simp

text \<open>
  C8, amended. Whatever its arguments, \<^verbatim>\<open>cosineSimilarity\<close> reaches the division only
  with a denominator that is not \<^verbatim>\<open>=== 0\<close>, in exact arithmetic and in double precision.
  For two descriptors of equal length of which one has only zero components, it leaves
  through the guard \<^verbatim>\<open>denom === 0\<close> and returns 0: always in exact arithmetic, and in
  double precision when the components of the other descriptor are finite and its
  norm, as the code computes it, is finite.
\<close>

theorem zero_vector_takes_guard:
  "(length xs = length ys \<and> ((\<forall>x \<in> set xs. x = 0) \<or> (\<forall>y \<in> set ys. y = 0)) \<longrightarrow>
      cosine_exit exact (Some xs) (Some ys) = ZeroDenominator \<and>
      cosineSimilarity (Some xs) (Some ys) = 0) \<and>
   (cosine_exit exact a b = Quotient dot denom \<longrightarrow> denom \<noteq> 0) \<and>
   (length us = length vs \<and> (\<forall>u \<in> set us. u = Finite 0) \<and>
    (\<forall>v \<in> set vs. \<exists>r. v = Finite r) \<and>
    f64_sqrt (sum_squares binary64 (Finite 0) vs) = Finite n \<longrightarrow>
      cosine_exit binary64 (Some us) (Some vs) = ZeroDenominator \<and>
      cosine_exit binary64 (Some vs) (Some us) = ZeroDenominator \<and>
      cosineSimilarity_in binary64 (Some us) (Some vs) = Finite 0 \<and>
      cosineSimilarity_in binary64 (Some vs) (Some us) = Finite 0) \<and>
   (cosine_exit binary64 p q = Quotient fdot fdenom \<longrightarrow> \<not> f64_eq fdenom (Finite 0))"
proof (intro conjI impI)
  assume h: "length xs = length ys \<and> ((\<forall>x \<in> set xs. x = 0) \<or> (\<forall>y \<in> set ys. y = 0))"
  then show z: "cosine_exit exact (Some xs) (Some ys) = ZeroDenominator"
    using cosine_zero_either [of xs ys] by blast
  then show "cosineSimilarity (Some xs) (Some ys) = 0"
    by (simp add: cosineSimilarity_in_def)
next
  assume "cosine_exit exact a b = Quotient dot denom"
  from cosine_quotient_nonzero [OF this] show "denom \<noteq> 0" by simp
next
  assume h: "length us = length vs \<and> (\<forall>u \<in> set us. u = Finite 0) \<and>
    (\<forall>v \<in> set vs. \<exists>r. v = Finite r) \<and>
    f64_sqrt (sum_squares binary64 (Finite 0) vs) = Finite n"
  then show l: "cosine_exit binary64 (Some us) (Some vs) = ZeroDenominator"
    and r: "cosine_exit binary64 (Some vs) (Some us) = ZeroDenominator"
    using zero_vector_guard_binary64 [of us vs n] by blast+
  from l show "cosineSimilarity_in binary64 (Some us) (Some vs) = Finite 0"
    by (simp add: cosineSimilarity_in_def fl_zero)
  from r show "cosineSimilarity_in binary64 (Some vs) (Some us) = Finite 0"
    by (simp add: cosineSimilarity_in_def fl_zero)
next
  assume "cosine_exit binary64 p q = Quotient fdot fdenom"
  from cosine_quotient_nonzero [OF this] show "\<not> f64_eq fdenom (Finite 0)"
    by (simp add: fl_zero)
qed

theorem zero_vector_takes_guard_witness:
  "cosine_exit exact (Some [0, 0]) (Some [3, 4]) = ZeroDenominator \<and>
   cosineSimilarity (Some [0, 0]) (Some [3, 4]) = 0 \<and>
   cosine_exit exact (Some [1, 0]) (Some [1, 0]) = Quotient 1 1 \<and>
   cosineSimilarity_in binary64 (Some [Finite 0]) (Some [Finite 1]) = Finite 0 \<and>
   cosine_exit binary64 (Some [Finite 1, Finite 1]) (Some [Finite 1, Finite 1]) =
     Quotient (Finite 2) (Finite (4503599627370497 / 2 ^ 51)) \<and>
   \<not> f64_eq (Finite (4503599627370497 / 2 ^ 51)) (Finite 0)"
proof -
  have q: "cosine_exit exact (Some [1, 0]) (Some [1, 0]) = Quotient 1 1"
    by (simp add: cosine_exit_def)
  have n: "f64_sqrt (sum_squares binary64 (Finite 0) [Finite 1]) = Finite 1"
    using fl_sqrt_eqI [of 0 1 "2 ^ 52"] by (simp add: fl_1 pow2_def)
  from zero_vector_takes_guard [of "[0, 0]" "[3, 4]" "Some [1, 0]" "Some [1, 0]" 1 1
      "[Finite 0]" "[Finite 1]" 1 "Some [Finite 1, Finite 1]" "Some [Finite 1, Finite 1]"
      "Finite 2" "Finite (4503599627370497 / 2 ^ 51)"] q n exit_ones
  show ?thesis by simp
qed


end
